theory Spec2Isabelle
  imports Complex_Main "HOL-Library.Log_Nat"
begin

section \<open>JavaScript numbers\<close>

text \<open>
  A JavaScript \<open>number\<close> is modelled as an exact real extended with the three special
  values of IEEE arithmetic. The operations of this section do not round: a finite
  result is the exact real result. The rounding of binary64 is \<open>round64\<close>, defined
  further down, and the functions with suffix \<open>rd\<close> apply it after every operation.
  The sign of zero is not modelled: a zero divisor counts as \<open>+0\<close>.
\<close>

datatype jsnum = Num real | PInf | NInf | NaN

instantiation jsnum :: "{plus, minus, times, inverse, ord}"
begin

fun plus_jsnum :: "jsnum \<Rightarrow> jsnum \<Rightarrow> jsnum" where
  "plus_jsnum NaN b = NaN"
| "plus_jsnum a NaN = NaN"
| "plus_jsnum (Num a) (Num b) = Num (a + b)"
| "plus_jsnum PInf NInf = NaN"
| "plus_jsnum NInf PInf = NaN"
| "plus_jsnum PInf b = PInf"
| "plus_jsnum a PInf = PInf"
| "plus_jsnum NInf b = NInf"
| "plus_jsnum a NInf = NInf"

fun minus_jsnum :: "jsnum \<Rightarrow> jsnum \<Rightarrow> jsnum" where
  "minus_jsnum NaN b = NaN"
| "minus_jsnum a NaN = NaN"
| "minus_jsnum (Num a) (Num b) = Num (a - b)"
| "minus_jsnum PInf PInf = NaN"
| "minus_jsnum NInf NInf = NaN"
| "minus_jsnum PInf b = PInf"
| "minus_jsnum a PInf = NInf"
| "minus_jsnum NInf b = NInf"
| "minus_jsnum a NInf = PInf"

fun times_jsnum :: "jsnum \<Rightarrow> jsnum \<Rightarrow> jsnum" where
  "times_jsnum NaN b = NaN"
| "times_jsnum a NaN = NaN"
| "times_jsnum (Num a) (Num b) = Num (a * b)"
| "times_jsnum (Num a) PInf = (if 0 < a then PInf else if a < 0 then NInf else NaN)"
| "times_jsnum (Num a) NInf = (if 0 < a then NInf else if a < 0 then PInf else NaN)"
| "times_jsnum PInf (Num b) = (if 0 < b then PInf else if b < 0 then NInf else NaN)"
| "times_jsnum NInf (Num b) = (if 0 < b then NInf else if b < 0 then PInf else NaN)"
| "times_jsnum PInf PInf = PInf"
| "times_jsnum PInf NInf = NInf"
| "times_jsnum NInf PInf = NInf"
| "times_jsnum NInf NInf = PInf"

fun divide_jsnum :: "jsnum \<Rightarrow> jsnum \<Rightarrow> jsnum" where
  "divide_jsnum NaN b = NaN"
| "divide_jsnum a NaN = NaN"
| "divide_jsnum (Num a) (Num b) =
     (if b \<noteq> 0 then Num (a / b)
      else if 0 < a then PInf else if a < 0 then NInf else NaN)"
| "divide_jsnum (Num a) PInf = Num 0"
| "divide_jsnum (Num a) NInf = Num 0"
| "divide_jsnum PInf (Num b) = (if 0 \<le> b then PInf else NInf)"
| "divide_jsnum NInf (Num b) = (if 0 \<le> b then NInf else PInf)"
| "divide_jsnum PInf b = NaN"
| "divide_jsnum NInf b = NaN"

definition inverse_jsnum :: "jsnum \<Rightarrow> jsnum" where
  "inverse_jsnum a = divide (Num 1) a"

fun less_jsnum :: "jsnum \<Rightarrow> jsnum \<Rightarrow> bool" where
  "less_jsnum NaN b = False"
| "less_jsnum a NaN = False"
| "less_jsnum (Num a) (Num b) = (a < b)"
| "less_jsnum a NInf = False"
| "less_jsnum PInf b = False"
| "less_jsnum NInf b = True"
| "less_jsnum a PInf = True"

fun less_eq_jsnum :: "jsnum \<Rightarrow> jsnum \<Rightarrow> bool" where
  "less_eq_jsnum NaN b = False"
| "less_eq_jsnum a NaN = False"
| "less_eq_jsnum (Num a) (Num b) = (a \<le> b)"
| "less_eq_jsnum NInf b = True"
| "less_eq_jsnum a PInf = True"
| "less_eq_jsnum a NInf = False"
| "less_eq_jsnum PInf b = False"

instance ..

end

text \<open>A number is finite when it is neither NaN nor an infinity (\<open>Number.isFinite\<close>).\<close>

fun isFinite :: "jsnum \<Rightarrow> bool" where
  "isFinite (Num a) = True"
| "isFinite a = False"

text \<open>
  \<open>Math.min(...xs)\<close> and \<open>Math.max(...xs)\<close>: the fold of ECMAScript, starting
  from \<open>+Infinity\<close> and \<open>-Infinity\<close>, with NaN absorbing.
\<close>

definition min2 :: "jsnum \<Rightarrow> jsnum \<Rightarrow> jsnum" where
  "min2 a b = (if a = NaN \<or> b = NaN then NaN else if b < a then b else a)"

definition max2 :: "jsnum \<Rightarrow> jsnum \<Rightarrow> jsnum" where
  "max2 a b = (if a = NaN \<or> b = NaN then NaN else if a < b then b else a)"

definition Math_min :: "jsnum list \<Rightarrow> jsnum" where
  "Math_min xs = foldl min2 PInf xs"

definition Math_max :: "jsnum list \<Rightarrow> jsnum" where
  "Math_max xs = foldl max2 NInf xs"

text \<open>\<open>Math.sign\<close> on a finite argument.\<close>

definition Math_sign :: "real \<Rightarrow> real" where
  "Math_sign d = (if 0 < d then 1 else if d < 0 then - 1 else 0)"

section \<open>Data model\<close>

text \<open>\<open>IBar\<close> of \<open>type.ts\<close>: one OHLC sample; prices are finite numbers.\<close>

record IBar =
  Time :: int
  Open :: real
  High :: real
  Low :: real
  Close :: real
  TickVolume :: int

text \<open>The canvas element: its pixel size (unsigned in the DOM).\<close>

record HTMLCanvasElement =
  width :: nat
  height :: nat

text \<open>The fields of class \<open>Chart\<close>, the drawing context apart (it is a reference
  to the host's object, whose state is the record \<open>Ctx\<close> below).\<close>

record Chart =
  data :: "IBar list"
  canvas :: HTMLCanvasElement
  scale :: jsnum
  offsetX :: jsnum
  offsetY :: jsnum
  isDragging :: bool
  dragStartX :: jsnum
  dragStartY :: jsnum
  minPrice :: jsnum
  maxPrice :: jsnum

section \<open>Construction\<close>

definition calculatePriceRange :: "Chart \<Rightarrow> Chart" where
  "calculatePriceRange c =
     (let c1 = c\<lparr>minPrice := Math_min (map (\<lambda>bar. Num (Low bar)) (data c))\<rparr>
      in c1\<lparr>maxPrice := Math_max (map (\<lambda>bar. Num (High bar)) (data c1))\<rparr>)"

text \<open>The constructor: the field initialisers, then \<open>calculatePriceRange\<close>.
  (\<open>setupEvents\<close> registers the handlers; dispatching is \<open>handleEvent\<close> below.)\<close>

definition Chart_new :: "IBar list \<Rightarrow> HTMLCanvasElement \<Rightarrow> Chart" where
  "Chart_new bars cv =
     calculatePriceRange
       \<lparr>data = bars, canvas = cv, scale = Num 1, offsetX = Num 0, offsetY = Num 0,
        isDragging = False, dragStartX = Num 0, dragStartY = Num 0,
        minPrice = Num 0, maxPrice = Num 0\<rparr>"

section \<open>The host: drawing context, events, dates\<close>

text \<open>
  The 2D context is the host's object. Its state, as far as the chart uses it, is the
  three style attributes and the sequence of the calls made on it; a fill or stroke
  call is recorded with the style in force when it is made.
\<close>

datatype draw_op =
    ClearRect jsnum jsnum jsnum jsnum
  | StrokeRect string jsnum jsnum jsnum jsnum
  | FillRect string jsnum jsnum jsnum jsnum
  | FillText string string string jsnum jsnum
  | ScaleBy jsnum jsnum

record Ctx =
  fillStyle :: string
  strokeStyle :: string
  textAlign :: string
  calls :: "draw_op list"

definition clearRect :: "jsnum \<Rightarrow> jsnum \<Rightarrow> jsnum \<Rightarrow> jsnum \<Rightarrow> Ctx \<Rightarrow> Ctx" where
  "clearRect x y w h g = g\<lparr>calls := calls g @ [ClearRect x y w h]\<rparr>"

definition strokeRect :: "jsnum \<Rightarrow> jsnum \<Rightarrow> jsnum \<Rightarrow> jsnum \<Rightarrow> Ctx \<Rightarrow> Ctx" where
  "strokeRect x y w h g = g\<lparr>calls := calls g @ [StrokeRect (strokeStyle g) x y w h]\<rparr>"

definition fillRect :: "jsnum \<Rightarrow> jsnum \<Rightarrow> jsnum \<Rightarrow> jsnum \<Rightarrow> Ctx \<Rightarrow> Ctx" where
  "fillRect x y w h g = g\<lparr>calls := calls g @ [FillRect (fillStyle g) x y w h]\<rparr>"

definition fillText :: "string \<Rightarrow> jsnum \<Rightarrow> jsnum \<Rightarrow> Ctx \<Rightarrow> Ctx" where
  "fillText t x y g = g\<lparr>calls := calls g @ [FillText (fillStyle g) (textAlign g) t x y]\<rparr>"

definition ctx_scale :: "jsnum \<Rightarrow> jsnum \<Rightarrow> Ctx \<Rightarrow> Ctx" where
  "ctx_scale sx sy g = g\<lparr>calls := calls g @ [ScaleBy sx sy]\<rparr>"

text \<open>Pointer events carry finite client coordinates, a wheel event a finite delta;
  \<open>DOMRect\<close> is what \<open>getBoundingClientRect\<close> returns at the time of the event.\<close>

record MouseEvent =
  clientX :: real
  clientY :: real

record WheelEvent = MouseEvent +
  deltaY :: real

record DOMRect =
  rect_left :: real
  rect_top :: real

text \<open>
  \<open>new Date(ms)\<close> belongs to the host as well: it is a parameter \<open>nd\<close> of the
  rendering functions, giving the local-time fields of the instant \<open>ms\<close>.
\<close>

record JSDate =
  getDate :: int
  getMonth :: int
  getFullYear :: int

type_synonym DateCtor = "int \<Rightarrow> JSDate"

text \<open>Decimal rendering of an integer, as a template literal does it.\<close>

fun digits :: "nat \<Rightarrow> string" where
  "digits n = (if n < 10 then [''0123456789'' ! n]
               else digits (n div 10) @ [''0123456789'' ! (n mod 10)])"

declare digits.simps [simp del]

definition toString :: "int \<Rightarrow> string" where
  "toString i = (if i < 0 then CHR ''-'' # digits (nat (- i)) else digits (nat i))"

text \<open>
  A host calendar for concrete runs: local time at a fixed offset of \<open>tz\<close> minutes
  east of UTC, in the proleptic Gregorian calendar (days since 1970-01-01 to
  year, month, day).
\<close>

definition civil_from_days :: "int \<Rightarrow> JSDate" where
  "civil_from_days z0 =
     (let z = z0 + 719468;
          era = z div 146097;
          doe = z - era * 146097;
          yoe = (doe - doe div 1460 + doe div 36524 - doe div 146096) div 365;
          doy = doe - (365 * yoe + yoe div 4 - yoe div 100);
          mp = (5 * doy + 2) div 153;
          d = doy - (153 * mp + 2) div 5 + 1;
          m = (if mp < 10 then mp + 3 else mp - 9);
          y = yoe + era * 400 + (if m \<le> 2 then 1 else 0)
      in \<lparr>getDate = d, getMonth = m - 1, getFullYear = y\<rparr>)"

definition Date_fixed :: "int \<Rightarrow> DateCtor" where
  "Date_fixed tz ms = civil_from_days ((ms + tz * 60000) div 86400000)"

section \<open>Rendering\<close>

definition getDateFromBar :: "DateCtor \<Rightarrow> int \<Rightarrow> string" where
  "getDateFromBar nd time =
     (let date = nd (time * 1000)
      in toString (getDate date) @ ''.'' @ toString (getMonth date + 1) @ ''.''
         @ toString (getFullYear date))"

definition drawDateLabel :: "string \<Rightarrow> jsnum \<Rightarrow> jsnum \<Rightarrow> Ctx \<Rightarrow> Ctx" where
  "drawDateLabel date x y g =
     fillText date x y (g\<lparr>fillStyle := ''black'', textAlign := ''center''\<rparr>)"

text \<open>The constants at the head of \<open>drawBars\<close>.\<close>

definition canvasWidth :: "Chart \<Rightarrow> jsnum" where
  "canvasWidth c = Num (real (width (canvas c)))"

definition canvasHeight :: "Chart \<Rightarrow> jsnum" where
  "canvasHeight c = Num (real (height (canvas c)))"

definition dataLength :: "Chart \<Rightarrow> jsnum" where
  "dataLength c = Num (real (length (data c)))"

definition barWidth :: "Chart \<Rightarrow> jsnum" where
  "barWidth c = canvasWidth c / dataLength c"

definition scaledWidth :: "Chart \<Rightarrow> jsnum" where
  "scaledWidth c = canvasWidth c * scale c"

definition scaledHeight :: "Chart \<Rightarrow> jsnum" where
  "scaledHeight c = canvasHeight c * scale c"

definition drawBars_offsetX :: "Chart \<Rightarrow> jsnum" where
  "drawBars_offsetX c = offsetX c - (scaledWidth c - canvasWidth c) / Num 2"

definition drawBars_offsetY :: "Chart \<Rightarrow> jsnum" where
  "drawBars_offsetY c = offsetY c - (scaledHeight c - canvasHeight c) / Num 2"

text \<open>The constants of the \<open>forEach\<close> callback: \<open>x\<close>, \<open>y\<close> (the part of \<open>y\<close>
  before \<open>offsetY\<close> is subtracted has a name of its own), \<open>barHeight\<close>, \<open>labelX\<close>.\<close>

definition bar_x :: "Chart \<Rightarrow> nat \<Rightarrow> jsnum" where
  "bar_x c index =
     (Num (real index) * canvasWidth c) / dataLength c * scale c - drawBars_offsetX c"

definition bar_y_scaled :: "Chart \<Rightarrow> IBar \<Rightarrow> jsnum" where
  "bar_y_scaled c bar =
     scaledHeight c
       - ((Num (Close bar) - minPrice c) / (maxPrice c - minPrice c) * scaledHeight c)"

definition bar_y :: "Chart \<Rightarrow> IBar \<Rightarrow> jsnum" where
  "bar_y c bar = bar_y_scaled c bar - drawBars_offsetY c"

definition barHeight :: "Chart \<Rightarrow> IBar \<Rightarrow> jsnum" where
  "barHeight c bar =
     (Num (High bar) - Num (Low bar)) / (maxPrice c - minPrice c) * scaledHeight c"

definition labelX :: "Chart \<Rightarrow> nat \<Rightarrow> jsnum" where
  "labelX c index =
     (Num (real index) * canvasWidth c) / dataLength c * scale c - drawBars_offsetX c
       + barWidth c / Num 2"

text \<open>The \<open>forEach\<close> callback; it threads \<open>previousDate\<close> and the context.\<close>

definition drawBar :: "DateCtor \<Rightarrow> Chart \<Rightarrow> nat \<times> IBar \<Rightarrow> string option \<times> Ctx \<Rightarrow> string option \<times> Ctx"
  where
  "drawBar nd c ib st =
     (let index = fst ib; bar = snd ib; previousDate = fst st; g = snd st;
          g1 = g\<lparr>fillStyle := (if Open bar < Close bar then ''green'' else ''red'')\<rparr>;
          g2 = fillRect (bar_x c index) (bar_y c bar) (barWidth c * scale c) (barHeight c bar) g1;
          currentDate = getDateFromBar nd (Time bar)
      in if Some currentDate \<noteq> previousDate
         then (Some currentDate,
               drawDateLabel currentDate (labelX c index) (canvasHeight c - Num 5) g2)
         else (previousDate, g2))"

definition drawBars :: "DateCtor \<Rightarrow> Chart \<Rightarrow> Ctx \<Rightarrow> Ctx" where
  "drawBars nd c g = snd (fold (drawBar nd c) (enumerate 0 (data c)) (None, g))"

definition drawChart :: "DateCtor \<Rightarrow> Chart \<Rightarrow> Ctx \<Rightarrow> Ctx" where
  "drawChart nd c g =
     (let g1 = clearRect (Num 0) (Num 0) (canvasWidth c) (canvasHeight c) g;
          g2 = g1\<lparr>strokeStyle := ''#000''\<rparr>;
          g3 = strokeRect (Num 0) (Num 0) (canvasWidth c) (canvasHeight c) g2
      in drawBars nd c g3)"

section \<open>Event handlers\<close>

text \<open>A handler maps the chart and the context before the event to those after it.\<close>

definition handleMouseWheel :: "DateCtor \<Rightarrow> WheelEvent \<Rightarrow> DOMRect \<Rightarrow> Chart \<times> Ctx \<Rightarrow> Chart \<times> Ctx"
  where
  "handleMouseWheel nd event rect st =
     (let c = fst st; g = snd st;
          delta = Math_sign (deltaY event);
          zoomFactor = (if 0 < delta then Num (11 / 10) else Num (9 / 10));
          ox = Num (clientX event) - Num (rect_left rect);
          oy = Num (clientY event) - Num (rect_top rect);
          previousScale = scale c;
          c1 = c\<lparr>scale := scale c * zoomFactor\<rparr>;
          minScale = Num 1;
          c2 = c1\<lparr>scale := Math_max [minScale, scale c1]\<rparr>;
          g1 = (if minScale < scale c2 then ctx_scale zoomFactor zoomFactor g else g);
          c3 = c2\<lparr>offsetX := ox - (ox - offsetX c2) * (scale c2 / previousScale)\<rparr>;
          c4 = c3\<lparr>offsetY := oy - (oy - offsetY c3) * (scale c3 / previousScale)\<rparr>
      in (c4, drawChart nd c4 g1))"

definition handleMouseDown :: "MouseEvent \<Rightarrow> Chart \<times> Ctx \<Rightarrow> Chart \<times> Ctx" where
  "handleMouseDown event st =
     ((fst st)\<lparr>isDragging := True, dragStartX := Num (clientX event),
               dragStartY := Num (clientY event)\<rparr>, snd st)"

definition handleMouseMove :: "DateCtor \<Rightarrow> MouseEvent \<Rightarrow> Chart \<times> Ctx \<Rightarrow> Chart \<times> Ctx" where
  "handleMouseMove nd event st =
     (let c = fst st; g = snd st
      in if isDragging c
         then (let deltaX = Num (clientX event) - dragStartX c;
                   deltaY = Num (clientY event) - dragStartY c;
                   c1 = c\<lparr>offsetX := offsetX c + deltaX\<rparr>;
                   c2 = c1\<lparr>offsetY := offsetY c1 + deltaY\<rparr>;
                   c3 = c2\<lparr>dragStartX := Num (clientX event)\<rparr>;
                   c4 = c3\<lparr>dragStartY := Num (clientY event)\<rparr>
               in (c4, drawChart nd c4 g))
         else st)"

definition handleMouseUp :: "Chart \<times> Ctx \<Rightarrow> Chart \<times> Ctx" where
  "handleMouseUp st = ((fst st)\<lparr>isDragging := False\<rparr>, snd st)"

definition handleMouseLeave :: "Chart \<times> Ctx \<Rightarrow> Chart \<times> Ctx" where
  "handleMouseLeave st = ((fst st)\<lparr>isDragging := False\<rparr>, snd st)"

text \<open>What \<open>setupEvents\<close> wires: each event kind goes to its handler. \<open>Render\<close>
  is the host's call of \<open>drawChart\<close>.\<close>

datatype Event =
    Wheel WheelEvent DOMRect
  | MouseDown MouseEvent
  | MouseMove MouseEvent
  | MouseUp
  | MouseLeave
  | Render

fun handleEvent :: "DateCtor \<Rightarrow> Event \<Rightarrow> Chart \<times> Ctx \<Rightarrow> Chart \<times> Ctx" where
  "handleEvent nd (Wheel event rect) st = handleMouseWheel nd event rect st"
| "handleEvent nd (MouseDown event) st = handleMouseDown event st"
| "handleEvent nd (MouseMove event) st = handleMouseMove nd event st"
| "handleEvent nd MouseUp st = handleMouseUp st"
| "handleEvent nd MouseLeave st = handleMouseLeave st"
| "handleEvent nd Render st = (fst st, drawChart nd (fst st) (snd st))"

definition handleEvents :: "DateCtor \<Rightarrow> Event list \<Rightarrow> Chart \<times> Ctx \<Rightarrow> Chart \<times> Ctx" where
  "handleEvents nd es st = fold (handleEvent nd) es st"

text \<open>A fresh 2D context.\<close>

definition Ctx_new :: Ctx where
  "Ctx_new = \<lparr>fillStyle = ''#000000'', strokeStyle = ''#000000'', textAlign = ''start'', calls = []\<rparr>"

section \<open>Binary64 rounding\<close>

text \<open>
  The operations on \<open>jsnum\<close> above give the exact result of an operation on finite
  numbers. The code's arithmetic is IEEE binary64: every operation delivers the exact
  result rounded to the nearest double, ties to even, and \<open>\<plusminus>Infinity\<close> when the
  rounded result reaches \<open>2 ^ 1024\<close>. Every finite double is an integer multiple of
  \<open>2 ^ -1074\<close>, so the rounding is done on integers in that unit: \<open>fl x\<close> scales \<open>x\<close> by
  \<open>2 ^ 1074\<close>, rounds it with \<open>rne\<close> to a multiple of the power of two that leaves 53
  significant bits (to an integer, when the integer part has at most 53 bits: the
  subnormal range and the lowest binade), and scales back.
\<close>

definition rne :: "real \<Rightarrow> int" where
  "rne y = (let f = \<lfloor>y\<rfloor>; d = y - of_int f
            in if d < 1 / 2 then f else if 1 / 2 < d then f + 1
               else if even f then f else f + 1)"

definition ulp_exp :: nat where
  "ulp_exp = 1074"

definition huge_exp :: nat where
  "huge_exp = 1024 + 1074"

definition fl :: "real \<Rightarrow> jsnum" where
  "fl x = (let t = x * 2 ^ ulp_exp;
               u = 2 ^ nat (bitlen \<lfloor>\<bar>t\<bar>\<rfloor> - 53);
               r = rne (t / of_int u) * u
           in if 2 ^ huge_exp \<le> \<bar>r\<bar> then (if 0 < x then PInf else NInf)
              else Num (of_int r / 2 ^ ulp_exp))"

fun round64 :: "jsnum \<Rightarrow> jsnum" where
  "round64 (Num x) = fl x"
| "round64 a = a"

text \<open>The rounding of \<open>fl\<close> in units of \<open>2 ^ -1074\<close>, and the doubles among the reals.\<close>

definition grid_round :: "real \<Rightarrow> int" where
  "grid_round t = rne (t / of_int (2 ^ nat (bitlen \<lfloor>\<bar>t\<bar>\<rfloor> - 53))) * 2 ^ nat (bitlen \<lfloor>\<bar>t\<bar>\<rfloor> - 53)"

definition is_double :: "real \<Rightarrow> bool" where
  "is_double x = (fl x = Num x)"

section \<open>The chart's arithmetic with rounding\<close>

text \<open>
  The functions of this section are the arithmetic of \<open>drawBars\<close> and of the handlers
  once more, with a rounding \<open>rd\<close> applied to the result of every operation and to the
  literals \<open>1.1\<close> and \<open>0.9\<close>; the handlers are given by their effect on the chart's
  fields (the render call changes none of them). With the identity for \<open>rd\<close> they are
  the functions above; with \<open>round64\<close> they compute what the code computes on doubles.
\<close>

definition scaledHeight_rd :: "(jsnum \<Rightarrow> jsnum) \<Rightarrow> Chart \<Rightarrow> jsnum" where
  "scaledHeight_rd rd c = rd (canvasHeight c * scale c)"

definition bar_y_scaled_rd :: "(jsnum \<Rightarrow> jsnum) \<Rightarrow> Chart \<Rightarrow> IBar \<Rightarrow> jsnum" where
  "bar_y_scaled_rd rd c bar =
     rd (scaledHeight_rd rd c
           - rd (rd (rd (Num (Close bar) - minPrice c) / rd (maxPrice c - minPrice c))
                   * scaledHeight_rd rd c))"

definition barHeight_rd :: "(jsnum \<Rightarrow> jsnum) \<Rightarrow> Chart \<Rightarrow> IBar \<Rightarrow> jsnum" where
  "barHeight_rd rd c bar =
     rd (rd (rd (Num (High bar) - Num (Low bar)) / rd (maxPrice c - minPrice c))
           * scaledHeight_rd rd c)"

definition handleMouseWheel_rd :: "(jsnum \<Rightarrow> jsnum) \<Rightarrow> WheelEvent \<Rightarrow> DOMRect \<Rightarrow> Chart \<Rightarrow> Chart"
  where
  "handleMouseWheel_rd rd event rect c =
     (let delta = Math_sign (deltaY event);
          zoomFactor = (if 0 < delta then rd (Num (11 / 10)) else rd (Num (9 / 10)));
          ox = rd (Num (clientX event) - Num (rect_left rect));
          oy = rd (Num (clientY event) - Num (rect_top rect));
          previousScale = scale c;
          c1 = c\<lparr>scale := rd (scale c * zoomFactor)\<rparr>;
          minScale = Num 1;
          c2 = c1\<lparr>scale := Math_max [minScale, scale c1]\<rparr>;
          c3 = c2\<lparr>offsetX := rd (ox - rd (rd (ox - offsetX c2) * rd (scale c2 / previousScale)))\<rparr>;
          c4 = c3\<lparr>offsetY := rd (oy - rd (rd (oy - offsetY c3) * rd (scale c3 / previousScale)))\<rparr>
      in c4)"

definition handleMouseDown_rd :: "MouseEvent \<Rightarrow> Chart \<Rightarrow> Chart" where
  "handleMouseDown_rd event c =
     c\<lparr>isDragging := True, dragStartX := Num (clientX event), dragStartY := Num (clientY event)\<rparr>"

definition handleMouseMove_rd :: "(jsnum \<Rightarrow> jsnum) \<Rightarrow> MouseEvent \<Rightarrow> Chart \<Rightarrow> Chart" where
  "handleMouseMove_rd rd event c =
     (if isDragging c
      then (let deltaX = rd (Num (clientX event) - dragStartX c);
                deltaY = rd (Num (clientY event) - dragStartY c);
                c1 = c\<lparr>offsetX := rd (offsetX c + deltaX)\<rparr>;
                c2 = c1\<lparr>offsetY := rd (offsetY c1 + deltaY)\<rparr>;
                c3 = c2\<lparr>dragStartX := Num (clientX event)\<rparr>;
                c4 = c3\<lparr>dragStartY := Num (clientY event)\<rparr>
            in c4)
      else c)"

fun handleEvent_rd :: "(jsnum \<Rightarrow> jsnum) \<Rightarrow> Event \<Rightarrow> Chart \<Rightarrow> Chart" where
  "handleEvent_rd rd (Wheel event rect) c = handleMouseWheel_rd rd event rect c"
| "handleEvent_rd rd (MouseDown event) c = handleMouseDown_rd event c"
| "handleEvent_rd rd (MouseMove event) c = handleMouseMove_rd rd event c"
| "handleEvent_rd rd MouseUp c = c\<lparr>isDragging := False\<rparr>"
| "handleEvent_rd rd MouseLeave c = c\<lparr>isDragging := False\<rparr>"
| "handleEvent_rd rd Render c = c"

definition handleEvents_rd :: "(jsnum \<Rightarrow> jsnum) \<Rightarrow> Event list \<Rightarrow> Chart \<Rightarrow> Chart" where
  "handleEvents_rd rd es c = fold (handleEvent_rd rd) es c"

section \<open>Concrete inputs\<close>

text \<open>The three bars and the 300 by 100 surface of the end-to-end example.\<close>

definition example_bars :: "IBar list" where
  "example_bars =
     [\<lparr>Time = 0, Open = 10, High = 12, Low = 9, Close = 11, TickVolume = 0\<rparr>,
      \<lparr>Time = 0, Open = 11, High = 11, Low = 8, Close = 9, TickVolume = 0\<rparr>,
      \<lparr>Time = 0, Open = 9, High = 10, Low = 8, Close = 19 / 2, TickVolume = 0\<rparr>]"

definition example_canvas :: HTMLCanvasElement where
  "example_canvas = \<lparr>width = 300, height = 100\<rparr>"

text \<open>Wheel events at the top left corner of a surface placed at the origin of the
  client area, and the chart of the example bars as constructed.\<close>

definition wheel_out :: WheelEvent where
  "wheel_out = \<lparr>clientX = 0, clientY = 0, deltaY = 100\<rparr>"

definition wheel_in :: WheelEvent where
  "wheel_in = \<lparr>clientX = 0, clientY = 0, deltaY = - 100\<rparr>"

definition rect0 :: DOMRect where
  "rect0 = \<lparr>rect_left = 0, rect_top = 0\<rparr>"

definition chart0 :: Chart where
  "chart0 = Chart_new example_bars example_canvas"

text \<open>A pointer position, and the example chart in the middle of a drag anchored at (10, 20).\<close>

definition pt :: "real \<Rightarrow> real \<Rightarrow> MouseEvent" where
  "pt x y = \<lparr>clientX = x, clientY = y\<rparr>"

definition chart_dragging :: Chart where
  "chart_dragging = chart0\<lparr>isDragging := True, dragStartX := Num 10, dragStartY := Num 20\<rparr>"

text \<open>The styles of the \<open>fillRect\<close> calls and the \<open>fillText\<close> calls in a call sequence.\<close>

fun fill_styles :: "draw_op list \<Rightarrow> string list" where
  "fill_styles [] = []"
| "fill_styles (FillRect s x y w h # ops) = s # fill_styles ops"
| "fill_styles (ClearRect x y w h # ops) = fill_styles ops"
| "fill_styles (StrokeRect s x y w h # ops) = fill_styles ops"
| "fill_styles (FillText s a t x y # ops) = fill_styles ops"
| "fill_styles (ScaleBy x y # ops) = fill_styles ops"

fun labels :: "draw_op list \<Rightarrow> draw_op list" where
  "labels [] = []"
| "labels (FillText s a t x y # ops) = FillText s a t x y # labels ops"
| "labels (ClearRect x y w h # ops) = labels ops"
| "labels (StrokeRect s x y w h # ops) = labels ops"
| "labels (FillRect s x y w h # ops) = labels ops"
| "labels (ScaleBy x y # ops) = labels ops"

text \<open>The calls one pass of the \<open>forEach\<close> callback makes for bar \<open>index\<close>, given the
  date string of the bar before it (none for the first bar).\<close>

definition bar_calls :: "DateCtor \<Rightarrow> Chart \<Rightarrow> nat \<Rightarrow> IBar \<Rightarrow> string option \<Rightarrow> draw_op list" where
  "bar_calls nd c index bar prev =
     FillRect (if Open bar < Close bar then ''green'' else ''red'')
        (bar_x c index) (bar_y c bar) (barWidth c * scale c) (barHeight c bar)
     # (if Some (getDateFromBar nd (Time bar)) \<noteq> prev
        then [FillText ''black'' ''center'' (getDateFromBar nd (Time bar))
                (labelX c index) (canvasHeight c - Num 5)]
        else [])"

fun bars_calls :: "DateCtor \<Rightarrow> Chart \<Rightarrow> nat \<Rightarrow> IBar list \<Rightarrow> string option \<Rightarrow> draw_op list" where
  "bars_calls nd c k [] prev = []"
| "bars_calls nd c k (bar # bars) prev =
     bar_calls nd c k bar prev @ bars_calls nd c (Suc k) bars (Some (getDateFromBar nd (Time bar)))"

text \<open>Two bars, the second closing where it opened.\<close>

definition tie_bars :: "IBar list" where
  "tie_bars =
     [\<lparr>Time = 0, Open = 10, High = 12, Low = 9, Close = 11, TickVolume = 0\<rparr>,
      \<lparr>Time = 0, Open = 9, High = 11, Low = 8, Close = 9, TickVolume = 0\<rparr>]"

text \<open>The state of the \<open>forEach\<close> in \<open>drawBars\<close> after its first \<open>k\<close> callbacks.\<close>

definition drawBars_upto :: "DateCtor \<Rightarrow> Chart \<Rightarrow> nat \<Rightarrow> Ctx \<Rightarrow> string option \<times> Ctx" where
  "drawBars_upto nd c k g = fold (drawBar nd c) (take k (enumerate 0 (data c))) (None, g)"

text \<open>Three bars on two days and two bars on one day; the host is at UTC+2, so that
  local midnight of 1 January 2024 is 22:00 UTC of the day before.\<close>

definition day_bars :: "IBar list" where
  "day_bars =
     [\<lparr>Time = 1704060000, Open = 10, High = 12, Low = 9, Close = 11, TickVolume = 0\<rparr>,
      \<lparr>Time = 1704103200, Open = 11, High = 11, Low = 8, Close = 9, TickVolume = 0\<rparr>,
      \<lparr>Time = 1704146400, Open = 9, High = 10, Low = 8, Close = 19 / 2, TickVolume = 0\<rparr>]"

definition same_day_bars :: "IBar list" where
  "same_day_bars =
     [\<lparr>Time = 1704060000, Open = 10, High = 12, Low = 9, Close = 11, TickVolume = 0\<rparr>,
      \<lparr>Time = 1704103200, Open = 11, High = 11, Low = 8, Close = 9, TickVolume = 0\<rparr>]"

text \<open>A bar closing above its high, next to a well-formed one; and a single flat bar.\<close>

definition malformed_bars :: "IBar list" where
  "malformed_bars =
     [\<lparr>Time = 0, Open = 10, High = 12, Low = 9, Close = 20, TickVolume = 0\<rparr>,
      \<lparr>Time = 0, Open = 11, High = 11, Low = 8, Close = 9, TickVolume = 0\<rparr>]"

definition flat_bars :: "IBar list" where
  "flat_bars = [\<lparr>Time = 0, Open = 10, High = 10, Low = 10, Close = 10, TickVolume = 0\<rparr>]"

text \<open>A wheel event on the top left corner of the first example bar, which the initial
  render puts at pixel (0, 25).\<close>

definition wheel_on_bar0 :: WheelEvent where
  "wheel_on_bar0 = \<lparr>clientX = 0, clientY = 25, deltaY = 100\<rparr>"

text \<open>A coordinate or offset that is a whole number of pixels, of magnitude at most
  \<open>2 ^ 51\<close>.\<close>

definition pixel :: "real \<Rightarrow> bool" where
  "pixel x = (x = of_int \<lfloor>x\<rfloor> \<and> \<bar>x\<bar> \<le> 2 ^ 51)"

text \<open>In binary64: the example chart after one wheel event at \<open>x = 7\<close>, and then after a
  drag from 0 over 10 and 20 to 30; the example chart panned by \<open>2 ^ 53\<close> pixels in one
  move, and then after a drag from 0 over 1 to 2; the example chart after one zoom step.\<close>

definition wheel_at_7 :: WheelEvent where
  "wheel_at_7 = \<lparr>clientX = 7, clientY = 0, deltaY = 100\<rparr>"

definition zoomed7 :: Chart where
  "zoomed7 = handleEvents_rd round64 [Wheel wheel_at_7 rect0] chart0"

definition dragged30 :: Chart where
  "dragged30 = handleEvents_rd round64
     [MouseDown (pt 0 0), MouseMove (pt 10 0), MouseMove (pt 20 0), MouseMove (pt 30 0)] zoomed7"

definition far_chart :: Chart where
  "far_chart = handleEvents_rd round64
     [MouseDown (pt 0 0), MouseMove (pt (2 ^ 53) 0), MouseUp] chart0"

definition far_dragged :: Chart where
  "far_dragged = handleEvents_rd round64
     [MouseDown (pt 0 0), MouseMove (pt 1 0), MouseMove (pt 2 0)] far_chart"

definition zoomed_chart :: Chart where
  "zoomed_chart = handleEvents_rd round64 [Wheel wheel_out rect0] (Chart_new example_bars example_canvas)"

section \<open>The price range\<close>

lemma foldl_min2_Num: "foldl min2 (Num a) (map Num xs) = Num (Min (insert a (set xs)))"
proof (induction xs arbitrary: a)
  case Nil
  show ?case by simp
next
  case (Cons x xs)
  have "min2 (Num a) (Num x) = Num (min a x)" by (simp add: min2_def min_def)
  moreover have "Min (insert (min a x) (set xs)) = Min (insert a (insert x (set xs)))"
    by (metis List.finite_set Min_insert finite.insertI insert_not_empty min.assoc Min_singleton)
  ultimately show ?case using Cons.IH [of "min a x"] by simp
qed

lemma foldl_max2_Num: "foldl max2 (Num a) (map Num xs) = Num (Max (insert a (set xs)))"
proof (induction xs arbitrary: a)
  case Nil
  show ?case by simp
next
  case (Cons x xs)
  have "max2 (Num a) (Num x) = Num (max a x)" by (simp add: max2_def max_def)
  moreover have "Max (insert (max a x) (set xs)) = Max (insert a (insert x (set xs)))"
    by (metis List.finite_set Max_insert finite.insertI insert_not_empty max.assoc Max_singleton)
  ultimately show ?case using Cons.IH [of "max a x"] by simp
qed

lemma Math_min_Num: "xs \<noteq> [] \<Longrightarrow> Math_min (map Num xs) = Num (Min (set xs))"
  by (cases xs) (simp_all add: Math_min_def min2_def foldl_min2_Num)

lemma Math_max_Num: "xs \<noteq> [] \<Longrightarrow> Math_max (map Num xs) = Num (Max (set xs))"
  by (cases xs) (simp_all add: Math_max_def max2_def foldl_max2_Num)

lemma Chart_new_minPrice:
  "bars \<noteq> [] \<Longrightarrow> minPrice (Chart_new bars cv) = Num (Min (Low ` set bars))"
  using Math_min_Num [of "map Low bars"]
  by (simp add: Chart_new_def calculatePriceRange_def comp_def)

lemma Chart_new_maxPrice:
  "bars \<noteq> [] \<Longrightarrow> maxPrice (Chart_new bars cv) = Num (Max (High ` set bars))"
  using Math_max_Num [of "map High bars"]
  by (simp add: Chart_new_def calculatePriceRange_def comp_def)

lemma handleEvent_frame:
  "data (fst (handleEvent nd e st)) = data (fst st) \<and>
   canvas (fst (handleEvent nd e st)) = canvas (fst st) \<and>
   minPrice (fst (handleEvent nd e st)) = minPrice (fst st) \<and>
   maxPrice (fst (handleEvent nd e st)) = maxPrice (fst st)"
  by (cases e)
     (simp_all add: handleMouseWheel_def handleMouseDown_def handleMouseMove_def
        handleMouseUp_def handleMouseLeave_def Let_def)

lemma handleEvents_frame:
  "data (fst (handleEvents nd es st)) = data (fst st) \<and>
   canvas (fst (handleEvents nd es st)) = canvas (fst st) \<and>
   minPrice (fst (handleEvents nd es st)) = minPrice (fst st) \<and>
   maxPrice (fst (handleEvents nd es st)) = maxPrice (fst st)"
  unfolding handleEvents_def
proof (induction es arbitrary: st)
  case Nil
  show ?case by simp
next
  case (Cons e es)
  show ?case using Cons.IH [of "handleEvent nd e st"] handleEvent_frame [of nd e st] by simp
qed

text \<open>
  C8. Construction sets \<open>minPrice\<close> to the least \<open>Low\<close> and \<open>maxPrice\<close> to the
  greatest \<open>High\<close> of a non-empty bar sequence, and after any sequence of events and
  renders the two fields still hold these values: nothing recomputes them.
\<close>

theorem price_range_computed_once:
  assumes "bars \<noteq> []"
  shows "minPrice (Chart_new bars cv) = Num (Min (Low ` set bars)) \<and>
         maxPrice (Chart_new bars cv) = Num (Max (High ` set bars)) \<and>
         minPrice (fst (handleEvents nd es (Chart_new bars cv, g))) = Num (Min (Low ` set bars)) \<and>
         maxPrice (fst (handleEvents nd es (Chart_new bars cv, g))) = Num (Max (High ` set bars))"
  using assms handleEvents_frame [of nd es "(Chart_new bars cv, g)"]
  by (simp add: Chart_new_minPrice Chart_new_maxPrice)

text \<open>The end-to-end example: lows 9, 8, 8 and highs 12, 11, 10 give 8 and 12.\<close>

theorem price_range_computed_once_witness:
  "example_bars \<noteq> [] \<and>
   minPrice (Chart_new example_bars example_canvas) = Num 8 \<and>
   maxPrice (Chart_new example_bars example_canvas) = Num 12 \<and>
   minPrice (fst (handleEvents (Date_fixed 0) [Render, MouseDown \<lparr>clientX = 5, clientY = 5\<rparr>] (Chart_new example_bars example_canvas, Ctx_new))) = Num 8 \<and>
   maxPrice (fst (handleEvents (Date_fixed 0) [Render, MouseDown \<lparr>clientX = 5, clientY = 5\<rparr>] (Chart_new example_bars example_canvas, Ctx_new))) = Num 12"
proof -
  have ne: "example_bars \<noteq> []" by (simp add: example_bars_def)
  have mn: "Min (Low ` set example_bars) = 8" by (simp add: example_bars_def)
  have mx: "Max (High ` set example_bars) = 12" by (simp add: example_bars_def)
  show ?thesis
    using price_range_computed_once [OF ne, of example_canvas "Date_fixed 0" "[Render, MouseDown \<lparr>clientX = 5, clientY = 5\<rparr>]" Ctx_new] ne
    by (simp add: mn mx)
qed

section \<open>What the handlers leave alone\<close>

lemma handleEvent_only_transform:
  "fst (handleEvent nd e st) =
     (fst st)\<lparr>scale := scale (fst (handleEvent nd e st)),
              offsetX := offsetX (fst (handleEvent nd e st)),
              offsetY := offsetY (fst (handleEvent nd e st)),
              isDragging := isDragging (fst (handleEvent nd e st)),
              dragStartX := dragStartX (fst (handleEvent nd e st)),
              dragStartY := dragStartY (fst (handleEvent nd e st))\<rparr>"
  by (cases e)
     (simp_all add: handleMouseWheel_def handleMouseDown_def handleMouseMove_def
        handleMouseUp_def handleMouseLeave_def Let_def)

text \<open>
  C10. No handler and no render changes the bar sequence, the canvas, \<open>minPrice\<close> or
  \<open>maxPrice\<close>: the chart after an event is the chart before it with at most
  \<open>scale\<close>, \<open>offsetX\<close>, \<open>offsetY\<close>, \<open>isDragging\<close>, \<open>dragStartX\<close> and
  \<open>dragStartY\<close> updated, and the four other fields survive any sequence of events.
\<close>

theorem chart_frame:
  "data (fst (handleEvent nd e (c, g))) = data c \<and>
   canvas (fst (handleEvent nd e (c, g))) = canvas c \<and>
   minPrice (fst (handleEvent nd e (c, g))) = minPrice c \<and>
   maxPrice (fst (handleEvent nd e (c, g))) = maxPrice c \<and>
   fst (handleEvent nd e (c, g)) =
     c\<lparr>scale := scale (fst (handleEvent nd e (c, g))),
       offsetX := offsetX (fst (handleEvent nd e (c, g))),
       offsetY := offsetY (fst (handleEvent nd e (c, g))),
       isDragging := isDragging (fst (handleEvent nd e (c, g))),
       dragStartX := dragStartX (fst (handleEvent nd e (c, g))),
       dragStartY := dragStartY (fst (handleEvent nd e (c, g)))\<rparr> \<and>
   data (fst (handleEvents nd es (c, g))) = data c \<and>
   canvas (fst (handleEvents nd es (c, g))) = canvas c \<and>
   minPrice (fst (handleEvents nd es (c, g))) = minPrice c \<and>
   maxPrice (fst (handleEvents nd es (c, g))) = maxPrice c"
  using handleEvent_frame [of nd e "(c, g)"] handleEvents_frame [of nd es "(c, g)"]
    handleEvent_only_transform [of nd e "(c, g)"]
  by simp

section \<open>Zoom: the scale and its floor\<close>

lemma Math_sign_pos: "(0 < Math_sign d) = (0 < d)"
  by (simp add: Math_sign_def)

lemma Math_max_floor: "Math_max [Num 1, Num r] = Num (max 1 r)"
  by (simp add: Math_max_def max2_def max_def)

lemma wheel_scale:
  "scale (fst (handleMouseWheel nd ev rect st)) =
     Math_max [Num 1, scale (fst st) * (if 0 < deltaY ev then Num (11 / 10) else Num (9 / 10))]"
  by (simp add: handleMouseWheel_def Let_def Math_sign_pos)

lemma handleEvent_scale_ok:
  assumes "\<exists>r. scale (fst st) = Num r \<and> 1 \<le> r"
  shows "\<exists>r. scale (fst (handleEvent nd e st)) = Num r \<and> 1 \<le> r"
proof -
  obtain r where r: "scale (fst st) = Num r" "1 \<le> r"
    using assms by blast
  show ?thesis
  proof (cases e)
    case (Wheel ev rect)
    have "scale (fst (handleEvent nd e st)) =
            Num (max 1 (r * (if 0 < deltaY ev then 11 / 10 else 9 / 10)))"
      using Wheel r wheel_scale [of nd ev rect st] by (simp add: Math_max_floor)
    then show ?thesis by simp
  next
    case (MouseDown ev)
    then show ?thesis using r by (simp add: handleMouseDown_def)
  next
    case (MouseMove ev)
    then show ?thesis using r by (simp add: handleMouseMove_def Let_def)
  next
    case MouseUp
    then show ?thesis using r by (simp add: handleMouseUp_def)
  next
    case MouseLeave
    then show ?thesis using r by (simp add: handleMouseLeave_def)
  next
    case Render
    then show ?thesis using r by simp
  qed
qed

lemma handleEvents_scale_ok:
  "\<exists>r. scale (fst st) = Num r \<and> 1 \<le> r \<Longrightarrow>
   \<exists>r. scale (fst (handleEvents nd es st)) = Num r \<and> 1 \<le> r"
  unfolding handleEvents_def
proof (induction es arbitrary: st)
  case Nil
  then show ?case by simp
next
  case (Cons e es)
  show ?case
    using Cons.IH [OF handleEvent_scale_ok [OF Cons.prems, of nd e]] by simp
qed

lemma Chart_new_scale: "scale (Chart_new bars cv) = Num 1"
  by (simp add: Chart_new_def calculatePriceRange_def Let_def)

lemma reachable_scale:
  "\<exists>r. scale (fst (handleEvents nd es (Chart_new bars cv, g))) = Num r \<and> 1 \<le> r"
  using handleEvents_scale_ok [of "(Chart_new bars cv, g)" nd es]
  by (simp add: Chart_new_scale)

text \<open>
  C3. A wheel event with a positive delta multiplies \<open>scale\<close> by 1.1, one with a
  negative delta by 0.9, whatever the magnitude, and the product is clamped to 1 from
  below. From the initial state (scale 1) the scale is at least 1 after every sequence
  of events; sequences of wheel events are among them.
\<close>

theorem scale_never_below_one:
  "(0 < deltaY ev \<longrightarrow>
      scale (fst (handleMouseWheel nd ev rect (c, g))) = Math_max [Num 1, scale c * Num (11 / 10)]) \<and>
   (deltaY ev < 0 \<longrightarrow>
      scale (fst (handleMouseWheel nd ev rect (c, g))) = Math_max [Num 1, scale c * Num (9 / 10)]) \<and>
   Num 1 \<le> scale (fst (handleEvents nd es (Chart_new bars cv, g))) \<and>
   \<not> scale (fst (handleEvents nd es (Chart_new bars cv, g))) < Num 1"
proof -
  obtain r where "scale (fst (handleEvents nd es (Chart_new bars cv, g))) = Num r" "1 \<le> r"
    using reachable_scale by blast
  then show ?thesis
    using wheel_scale [of nd ev rect "(c, g)"] by simp
qed

theorem scale_never_below_one_witness:
  "0 < deltaY wheel_out \<and>
   scale (fst (handleMouseWheel (Date_fixed 0) wheel_out rect0 (chart0, Ctx_new))) = Num (11 / 10) \<and>
   deltaY wheel_in < 0 \<and>
   scale (fst (handleMouseWheel (Date_fixed 0) wheel_in rect0 (chart0, Ctx_new))) = Num 1 \<and>
   Num 1 \<le> scale (fst (handleEvents (Date_fixed 0)
                [Wheel wheel_in rect0, Wheel wheel_out rect0, Wheel wheel_in rect0]
                (Chart_new example_bars example_canvas, Ctx_new)))"
proof -
  have s0: "scale chart0 = Num 1" by (simp add: chart0_def Chart_new_scale)
  have a: "0 < deltaY wheel_out" by (simp add: wheel_out_def)
  have b: "deltaY wheel_in < 0" by (simp add: wheel_in_def)
  show ?thesis
    using scale_never_below_one [of wheel_out "Date_fixed 0" rect0 chart0 Ctx_new
            "[Wheel wheel_in rect0, Wheel wheel_out rect0, Wheel wheel_in rect0]"
            example_bars example_canvas]
          scale_never_below_one [of wheel_in "Date_fixed 0" rect0 chart0 Ctx_new "[]"
            example_bars example_canvas]
          a b
    by (simp add: s0 Math_max_floor)
qed

theorem chart_frame_witness:
  "data (fst (handleEvent (Date_fixed 0) (Wheel wheel_out rect0) (chart0, Ctx_new))) = example_bars \<and>
   canvas (fst (handleEvent (Date_fixed 0) (Wheel wheel_out rect0) (chart0, Ctx_new))) = example_canvas \<and>
   minPrice (fst (handleEvent (Date_fixed 0) (Wheel wheel_out rect0) (chart0, Ctx_new))) = minPrice chart0 \<and>
   maxPrice (fst (handleEvents (Date_fixed 0) [MouseDown (pt 1 1), MouseMove (pt 2 3), MouseLeave, Render] (chart0, Ctx_new))) = maxPrice chart0"
  using chart_frame [of "Date_fixed 0" "Wheel wheel_out rect0" chart0 Ctx_new
          "[MouseDown (pt 1 1), MouseMove (pt 2 3), MouseLeave, Render]"]
  by (simp add: chart0_def Chart_new_def calculatePriceRange_def Let_def)

section \<open>The calls of a render pass\<close>

lemma Chart_new_fields:
  "data (Chart_new bars cv) = bars" "canvas (Chart_new bars cv) = cv"
  "scale (Chart_new bars cv) = Num 1" "offsetX (Chart_new bars cv) = Num 0"
  "offsetY (Chart_new bars cv) = Num 0" "isDragging (Chart_new bars cv) = False"
  by (simp_all add: Chart_new_def calculatePriceRange_def Let_def)

lemma drawBar_calls:
  "drawBar nd c (k, bar) (prev, g) =
     (Some (getDateFromBar nd (Time bar)),
      (if Some (getDateFromBar nd (Time bar)) \<noteq> prev
       then g\<lparr>fillStyle := ''black'', textAlign := ''center'',
              calls := calls g @ bar_calls nd c k bar prev\<rparr>
       else g\<lparr>fillStyle := (if Open bar < Close bar then ''green'' else ''red''),
              calls := calls g @ bar_calls nd c k bar prev\<rparr>))"
  by (simp add: drawBar_def Let_def fillRect_def drawDateLabel_def fillText_def bar_calls_def)

lemma drawBar_calls_only:
  "calls (snd (drawBar nd c (k, bar) (prev, g))) = calls g @ bar_calls nd c k bar prev \<and>
   fst (drawBar nd c (k, bar) (prev, g)) = Some (getDateFromBar nd (Time bar))"
  by (simp add: drawBar_calls)

lemma fold_drawBar_calls:
  "calls (snd (fold (drawBar nd c) (enumerate k bars) (prev, g))) =
     calls g @ bars_calls nd c k bars prev"
proof (induction bars arbitrary: k prev g)
  case Nil
  show ?case by simp
next
  case (Cons bar bars)
  obtain p' g' where st: "drawBar nd c (k, bar) (prev, g) = (p', g')"
    by (cases "drawBar nd c (k, bar) (prev, g)")
  have "p' = Some (getDateFromBar nd (Time bar))" "calls g' = calls g @ bar_calls nd c k bar prev"
    using drawBar_calls_only [of nd c k bar prev g] st by simp_all
  then show ?case using Cons.IH [of "Suc k" p' g'] st by simp
qed

lemma drawBars_calls:
  "calls (drawBars nd c g) = calls g @ bars_calls nd c 0 (data c) None"
  by (simp add: drawBars_def fold_drawBar_calls)

lemma drawChart_calls:
  "calls (drawChart nd c g) =
     calls g @ [ClearRect (Num 0) (Num 0) (canvasWidth c) (canvasHeight c),
                StrokeRect ''#000'' (Num 0) (Num 0) (canvasWidth c) (canvasHeight c)]
       @ bars_calls nd c 0 (data c) None"
  by (simp add: drawChart_def Let_def drawBars_calls clearRect_def strokeRect_def)

lemma fill_styles_append: "fill_styles (xs @ ys) = fill_styles xs @ fill_styles ys"
  by (induction xs rule: fill_styles.induct) simp_all

lemma labels_append: "labels (xs @ ys) = labels xs @ labels ys"
  by (induction xs rule: labels.induct) simp_all

lemma fill_styles_bars_calls:
  "fill_styles (bars_calls nd c k bars prev) =
     map (\<lambda>bar. if Open bar < Close bar then ''green'' else ''red'') bars"
  by (induction bars arbitrary: k prev) (simp_all add: fill_styles_append bar_calls_def)

text \<open>
  C9. The bars are filled, in order, with \<open>green\<close> (the up colour) where
  \<open>Close > Open\<close> and with \<open>red\<close> (the down colour) everywhere else; a bar whose
  close equals its open is filled \<open>red\<close>.
\<close>

theorem fill_colour:
  "fill_styles (calls (drawBars nd c g)) =
     fill_styles (calls g) @ map (\<lambda>bar. if Open bar < Close bar then ''green'' else ''red'') (data c) \<and>
   fill_styles (calls (drawChart nd c g)) =
     fill_styles (calls g) @ map (\<lambda>bar. if Open bar < Close bar then ''green'' else ''red'') (data c) \<and>
   (\<forall>i < length (data c). Close (data c ! i) = Open (data c ! i) \<longrightarrow>
      fill_styles (calls (drawBars nd c Ctx_new)) ! i = ''red'')"
proof -
  have 1: "fill_styles (calls (drawBars nd c g)) =
     fill_styles (calls g) @ map (\<lambda>bar. if Open bar < Close bar then ''green'' else ''red'') (data c)" for g
    by (simp add: drawBars_calls fill_styles_append fill_styles_bars_calls)
  have 2: "fill_styles (calls (drawChart nd c g)) =
     fill_styles (calls g) @ map (\<lambda>bar. if Open bar < Close bar then ''green'' else ''red'') (data c)"
    by (simp add: drawChart_calls fill_styles_append fill_styles_bars_calls)
  have 3: "\<forall>i < length (data c). Close (data c ! i) = Open (data c ! i) \<longrightarrow>
      fill_styles (calls (drawBars nd c Ctx_new)) ! i = ''red''"
    by (simp add: 1 Ctx_new_def)
  show ?thesis using 1 2 3 by blast
qed

theorem fill_colour_witness:
  "fill_styles (calls (drawBars (Date_fixed 0) chart0 Ctx_new)) = [''green'', ''red'', ''green''] \<and>
   (1::nat) < length (data (Chart_new tie_bars example_canvas)) \<and>
   Close (data (Chart_new tie_bars example_canvas) ! 1) = Open (data (Chart_new tie_bars example_canvas) ! 1) \<and>
   fill_styles (calls (drawBars (Date_fixed 0) (Chart_new tie_bars example_canvas) Ctx_new)) ! 1 = ''red''"
proof -
  have d0: "data chart0 = example_bars"
    by (simp add: chart0_def Chart_new_fields)
  have A: "fill_styles (calls (drawBars (Date_fixed 0) chart0 Ctx_new)) = [''green'', ''red'', ''green'']"
    using fill_colour [of "Date_fixed 0" chart0 Ctx_new]
    by (simp add: d0 example_bars_def Ctx_new_def)
  have h: "(1::nat) < length (data (Chart_new tie_bars example_canvas))"
    "Close (data (Chart_new tie_bars example_canvas) ! 1) = Open (data (Chart_new tie_bars example_canvas) ! 1)"
    by (simp_all add: Chart_new_fields tie_bars_def)
  have B: "fill_styles (calls (drawBars (Date_fixed 0) (Chart_new tie_bars example_canvas) Ctx_new)) ! 1 = ''red''"
    using fill_colour [of "Date_fixed 0" "Chart_new tie_bars example_canvas" Ctx_new] h by blast
  show ?thesis using A B h by simp
qed

section \<open>Date strings\<close>

lemma digit_inj:
  "m < 10 \<Longrightarrow> n < 10 \<Longrightarrow> (''0123456789'' ! m = ''0123456789'' ! n) = (m = n)"
  by (rule nth_eq_iff_index_eq) simp_all

lemma digit_in: "n < 10 \<Longrightarrow> ''0123456789'' ! n \<in> set ''0123456789''"
  by (rule nth_mem) simp

lemma digits_small: "n < 10 \<Longrightarrow> digits n = [''0123456789'' ! n]"
  by (simp add: digits.simps)

lemma digits_large:
  "10 \<le> n \<Longrightarrow> digits n = digits (n div 10) @ [''0123456789'' ! (n mod 10)]"
  by (subst digits.simps) simp

lemma digits_set: "set (digits n) \<subseteq> set ''0123456789''"
proof (induction n rule: less_induct)
  case (less n)
  show ?case
  proof (cases "n < 10")
    case True
    then show ?thesis using digit_in [of n] by (simp only: digits_small) simp
  next
    case False
    then have "set (digits (n div 10)) \<subseteq> set ''0123456789''" by (intro less.IH) simp
    moreover have "''0123456789'' ! (n mod 10) \<in> set ''0123456789''" by (rule digit_in) simp
    ultimately show ?thesis using False by (simp only: digits_large) simp
  qed
qed

lemma digits_nonempty: "digits n \<noteq> []"
  by (cases "n < 10") (simp_all add: digits_small digits_large)

lemma digits_inj: "digits m = digits n \<Longrightarrow> m = n"
proof (induction m arbitrary: n rule: less_induct)
  case (less m)
  show ?case
  proof (cases "m < 10")
    case m: True
    show ?thesis
    proof (cases "n < 10")
      case True
      then show ?thesis using less.prems m by (simp add: digits_small digit_inj)
    next
      case False
      then show ?thesis using less.prems m digits_nonempty [of "n div 10"]
        by (simp add: digits_small digits_large)
    qed
  next
    case m: False
    show ?thesis
    proof (cases "n < 10")
      case True
      then show ?thesis using less.prems m digits_nonempty [of "m div 10"]
        by (simp add: digits_small digits_large)
    next
      case False
      have "digits (m div 10) = digits (n div 10)"
        "''0123456789'' ! (m mod 10) = ''0123456789'' ! (n mod 10)"
        using less.prems m False by (simp_all add: digits_large)
      then have "m div 10 = n div 10" "m mod 10 = n mod 10"
        using less.IH [of "m div 10" "n div 10"] m by (simp_all add: digit_inj)
      then show ?thesis by (metis div_mult_mod_eq)
    qed
  qed
qed

lemma toString_inj: "toString i = toString j \<Longrightarrow> i = j"
proof -
  assume eq: "toString i = toString j"
  have nodash: "CHR ''-'' \<notin> set (digits n)" for n
    using digits_set [of n] by auto
  have hd_in: "hd (digits n) \<in> set (digits n)" for n
    using digits_nonempty [of n] by simp
  consider "i < 0" "j < 0" | "i < 0" "0 \<le> j" | "0 \<le> i" "j < 0" | "0 \<le> i" "0 \<le> j"
    by linarith
  then show ?thesis
  proof cases
    case 1
    then have "digits (nat (- i)) = digits (nat (- j))" using eq by (simp add: toString_def)
    then have "nat (- i) = nat (- j)" by (rule digits_inj)
    then show ?thesis using 1 by simp
  next
    case 2
    then have "CHR ''-'' # digits (nat (- i)) = digits (nat j)" using eq by (simp add: toString_def)
    then have "hd (digits (nat j)) = CHR ''-''" by (metis list.sel(1))
    then show ?thesis using nodash [of "nat j"] hd_in [of "nat j"] by simp
  next
    case 3
    then have "digits (nat i) = CHR ''-'' # digits (nat (- j))" using eq by (simp add: toString_def)
    then have "hd (digits (nat i)) = CHR ''-''" by (metis list.sel(1))
    then show ?thesis using nodash [of "nat i"] hd_in [of "nat i"] by simp
  next
    case 4
    then have "digits (nat i) = digits (nat j)" using eq by (simp add: toString_def)
    then have "nat i = nat j" by (rule digits_inj)
    then show ?thesis using 4 by simp
  qed
qed

lemma toString_no_dot: "CHR ''.'' \<notin> set (toString i)"
  using digits_set [of "nat i"] digits_set [of "nat (- i)"] by (auto simp: toString_def)

lemma split_at_dot:
  assumes "CHR ''.'' \<notin> set a" "CHR ''.'' \<notin> set a'" "a @ CHR ''.'' # b = a' @ CHR ''.'' # b'"
  shows "a = a' \<and> b = b'"
  using assms
proof (induction a arbitrary: a')
  case Nil
  then show ?case by (cases a') auto
next
  case (Cons x a)
  then show ?case by (cases a') auto
qed

lemma getDateFromBar_eq_iff:
  "(getDateFromBar nd t = getDateFromBar nd t') =
     (getDate (nd (t * 1000)) = getDate (nd (t' * 1000)) \<and>
      getMonth (nd (t * 1000)) = getMonth (nd (t' * 1000)) \<and>
      getFullYear (nd (t * 1000)) = getFullYear (nd (t' * 1000)))"
proof
  assume eq: "getDateFromBar nd t = getDateFromBar nd t'"
  let ?d = "nd (t * 1000)" and ?d' = "nd (t' * 1000)"
  have 1: "toString (getDate ?d) @ CHR ''.'' # (toString (getMonth ?d + 1) @ CHR ''.'' # toString (getFullYear ?d))
         = toString (getDate ?d') @ CHR ''.'' # (toString (getMonth ?d' + 1) @ CHR ''.'' # toString (getFullYear ?d'))"
    using eq by (simp add: getDateFromBar_def Let_def)
  have 2: "toString (getDate ?d) = toString (getDate ?d')"
    "toString (getMonth ?d + 1) @ CHR ''.'' # toString (getFullYear ?d)
       = toString (getMonth ?d' + 1) @ CHR ''.'' # toString (getFullYear ?d')"
    using split_at_dot [OF toString_no_dot toString_no_dot 1] by simp_all
  have 3: "toString (getMonth ?d + 1) = toString (getMonth ?d' + 1)"
    "toString (getFullYear ?d) = toString (getFullYear ?d')"
    using split_at_dot [OF toString_no_dot toString_no_dot 2(2)] by simp_all
  show "getDate ?d = getDate ?d' \<and> getMonth ?d = getMonth ?d' \<and> getFullYear ?d = getFullYear ?d'"
    using toString_inj [OF 2(1)] toString_inj [OF 3(1)] toString_inj [OF 3(2)] by simp
next
  assume "getDate (nd (t * 1000)) = getDate (nd (t' * 1000)) \<and>
      getMonth (nd (t * 1000)) = getMonth (nd (t' * 1000)) \<and>
      getFullYear (nd (t * 1000)) = getFullYear (nd (t' * 1000))"
  then show "getDateFromBar nd t = getDateFromBar nd t'"
    by (simp add: getDateFromBar_def Let_def)
qed

section \<open>Date labels\<close>

lemma drawBars_upto_all: "drawBars nd c g = snd (drawBars_upto nd c (length (data c)) g)"
  by (simp add: drawBars_def drawBars_upto_def)

lemma drawBars_upto_Suc:
  assumes "i < length (data c)"
  shows "drawBars_upto nd c (Suc i) g = drawBar nd c (i, data c ! i) (drawBars_upto nd c i g)"
proof -
  have "take (Suc i) (enumerate 0 (data c)) = take i (enumerate 0 (data c)) @ [(i, data c ! i)]"
    using assms by (simp add: take_Suc_conv_app_nth nth_enumerate_eq)
  then show ?thesis by (simp add: drawBars_upto_def)
qed

lemma drawBars_upto_prev:
  assumes "i \<le> length (data c)"
  shows "fst (drawBars_upto nd c i g) =
           (if i = 0 then None else Some (getDateFromBar nd (Time (data c ! (i - 1)))))"
proof (cases i)
  case 0
  then show ?thesis by (simp add: drawBars_upto_def)
next
  case (Suc j)
  then have j: "j < length (data c)" using assms by simp
  obtain p g' where st: "drawBars_upto nd c j g = (p, g')"
    by (cases "drawBars_upto nd c j g")
  show ?thesis
    using Suc drawBars_upto_Suc [OF j, of nd g] drawBar_calls_only [of nd c j "data c ! j" p g'] st
    by simp
qed

lemma drawBars_upto_step:
  assumes "i < length (data c)"
  shows "calls (snd (drawBars_upto nd c (Suc i) g)) =
           calls (snd (drawBars_upto nd c i g)) @
           FillRect (if Open (data c ! i) < Close (data c ! i) then ''green'' else ''red'')
             (bar_x c i) (bar_y c (data c ! i)) (barWidth c * scale c) (barHeight c (data c ! i))
           # (if i = 0 \<or> getDateFromBar nd (Time (data c ! i))
                           \<noteq> getDateFromBar nd (Time (data c ! (i - 1)))
              then [FillText ''black'' ''center'' (getDateFromBar nd (Time (data c ! i)))
                      (labelX c i) (canvasHeight c - Num 5)]
              else [])"
proof -
  obtain p g' where st: "drawBars_upto nd c i g = (p, g')"
    by (cases "drawBars_upto nd c i g")
  have p: "p = (if i = 0 then None else Some (getDateFromBar nd (Time (data c ! (i - 1)))))"
    using drawBars_upto_prev [of i c nd g] assms st by simp
  have "calls (snd (drawBars_upto nd c (Suc i) g)) = calls g' @ bar_calls nd c i (data c ! i) p"
    using drawBars_upto_Suc [OF assms, of nd g] drawBar_calls_only [of nd c i "data c ! i" p g'] st
    by simp
  then show ?thesis using st p by (simp add: bar_calls_def)
qed

lemma labels_upto:
  assumes "k \<le> length (data c)"
  shows "length (labels (calls (snd (drawBars_upto nd c k g)))) =
           length (labels (calls g)) +
           length (filter (\<lambda>i. i = 0 \<or> getDateFromBar nd (Time (data c ! i))
                                         \<noteq> getDateFromBar nd (Time (data c ! (i - 1)))) [0..<k])"
  using assms
proof (induction k)
  case 0
  show ?case by (simp add: drawBars_upto_def)
next
  case (Suc k)
  then have k: "k < length (data c)" by simp
  show ?case
    using Suc.IH k by (simp add: drawBars_upto_step [OF k] labels_append)
qed

text \<open>
  C6. The callback for bar \<open>i\<close> calls \<open>fillRect\<close> and then draws a date label exactly
  when \<open>i = 0\<close> or the date string of bar \<open>i\<close> differs from that of bar \<open>i - 1\<close>;
  \<open>drawBars\<close> is the state after the last callback, so the number of labels of a pass
  is the number of such indices. Two date strings are equal exactly when the host's
  local day, month and year of the two instants are. (For three bars at 00:00 and
  12:00 of one day and 00:00 of the next this gives labels at indices 0 and 2, for
  bars of one day a single label: the concrete run below.)
\<close>

theorem date_labels:
  "(\<forall>i < length (data c).
      calls (snd (drawBars_upto nd c (Suc i) g)) =
        calls (snd (drawBars_upto nd c i g)) @
        FillRect (if Open (data c ! i) < Close (data c ! i) then ''green'' else ''red'')
          (bar_x c i) (bar_y c (data c ! i)) (barWidth c * scale c) (barHeight c (data c ! i))
        # (if i = 0 \<or> getDateFromBar nd (Time (data c ! i))
                        \<noteq> getDateFromBar nd (Time (data c ! (i - 1)))
           then [FillText ''black'' ''center'' (getDateFromBar nd (Time (data c ! i)))
                   (labelX c i) (canvasHeight c - Num 5)]
           else [])) \<and>
   drawBars nd c g = snd (drawBars_upto nd c (length (data c)) g) \<and>
   length (labels (calls (drawBars nd c g))) =
     length (labels (calls g)) +
     length (filter (\<lambda>i. i = 0 \<or> getDateFromBar nd (Time (data c ! i))
                                   \<noteq> getDateFromBar nd (Time (data c ! (i - 1))))
               [0..<length (data c)]) \<and>
   (getDateFromBar nd t = getDateFromBar nd t') =
     (getDate (nd (t * 1000)) = getDate (nd (t' * 1000)) \<and>
      getMonth (nd (t * 1000)) = getMonth (nd (t' * 1000)) \<and>
      getFullYear (nd (t * 1000)) = getFullYear (nd (t' * 1000)))"
proof -
  have 1: "\<forall>i < length (data c).
      calls (snd (drawBars_upto nd c (Suc i) g)) =
        calls (snd (drawBars_upto nd c i g)) @
        FillRect (if Open (data c ! i) < Close (data c ! i) then ''green'' else ''red'')
          (bar_x c i) (bar_y c (data c ! i)) (barWidth c * scale c) (barHeight c (data c ! i))
        # (if i = 0 \<or> getDateFromBar nd (Time (data c ! i))
                        \<noteq> getDateFromBar nd (Time (data c ! (i - 1)))
           then [FillText ''black'' ''center'' (getDateFromBar nd (Time (data c ! i)))
                   (labelX c i) (canvasHeight c - Num 5)]
           else [])"
    using drawBars_upto_step [of _ c nd g] by blast
  have 2: "drawBars nd c g = snd (drawBars_upto nd c (length (data c)) g)"
    by (rule drawBars_upto_all)
  have 3: "length (labels (calls (drawBars nd c g))) =
     length (labels (calls g)) +
     length (filter (\<lambda>i. i = 0 \<or> getDateFromBar nd (Time (data c ! i))
                                   \<noteq> getDateFromBar nd (Time (data c ! (i - 1))))
               [0..<length (data c)])"
    unfolding 2 by (rule labels_upto) simp
  show ?thesis using 1 2 3 getDateFromBar_eq_iff [of nd t t'] by blast
qed

lemma day_bars_dates:
  "getDateFromBar (Date_fixed 120) 1704060000 = ''1.1.2024''"
  "getDateFromBar (Date_fixed 120) 1704103200 = ''1.1.2024''"
  "getDateFromBar (Date_fixed 120) 1704146400 = ''2.1.2024''"
  by code_simp+

theorem date_labels_witness:
  "(2::nat) < length (data (Chart_new day_bars example_canvas)) \<and>
   labels (calls (snd (drawBars_upto (Date_fixed 120) (Chart_new day_bars example_canvas) 1 Ctx_new))) =
     labels (calls (snd (drawBars_upto (Date_fixed 120) (Chart_new day_bars example_canvas) 0 Ctx_new)))
       @ [FillText ''black'' ''center'' ''1.1.2024'' (Num 50) (Num 95)] \<and>
   labels (calls (snd (drawBars_upto (Date_fixed 120) (Chart_new day_bars example_canvas) 2 Ctx_new))) =
     labels (calls (snd (drawBars_upto (Date_fixed 120) (Chart_new day_bars example_canvas) 1 Ctx_new))) \<and>
   labels (calls (snd (drawBars_upto (Date_fixed 120) (Chart_new day_bars example_canvas) 3 Ctx_new))) =
     labels (calls (snd (drawBars_upto (Date_fixed 120) (Chart_new day_bars example_canvas) 2 Ctx_new)))
       @ [FillText ''black'' ''center'' ''2.1.2024'' (Num 250) (Num 95)] \<and>
   length (labels (calls (drawBars (Date_fixed 120) (Chart_new day_bars example_canvas) Ctx_new))) = 2 \<and>
   length (labels (calls (drawBars (Date_fixed 120) (Chart_new same_day_bars example_canvas) Ctx_new))) = 1"
proof -
  let ?c = "Chart_new day_bars example_canvas"
  note inst = date_labels [of ?c "Date_fixed 120" Ctx_new 0 0]
  note step = inst [THEN conjunct1, rule_format]
  note count = inst [THEN conjunct2, THEN conjunct2, THEN conjunct1]
  have len: "length (data ?c) = 3" by (simp add: Chart_new_fields day_bars_def)
  have bars: "Time (data ?c ! 0) = 1704060000" "Time (data ?c ! Suc 0) = 1704103200"
    "Time (data ?c ! 2) = 1704146400" "Time (data ?c ! Suc (Suc 0)) = 1704146400"
    by (simp_all add: Chart_new_fields day_bars_def)
  have geo: "labelX ?c 0 = Num 50" "labelX ?c 2 = Num 250" "canvasHeight ?c - Num 5 = Num 95"
    by (simp_all add: labelX_def canvasWidth_def canvasHeight_def dataLength_def
          drawBars_offsetX_def scaledWidth_def barWidth_def Chart_new_fields example_canvas_def
          day_bars_def)
  have s0: "labels (calls (snd (drawBars_upto (Date_fixed 120) ?c (Suc 0) Ctx_new))) =
     labels (calls (snd (drawBars_upto (Date_fixed 120) ?c 0 Ctx_new)))
       @ [FillText ''black'' ''center'' ''1.1.2024'' (Num 50) (Num 95)]"
    using step [of 0] len by (simp add: labels_append bars geo day_bars_dates)
  have s1: "labels (calls (snd (drawBars_upto (Date_fixed 120) ?c (Suc (Suc 0)) Ctx_new))) =
     labels (calls (snd (drawBars_upto (Date_fixed 120) ?c (Suc 0) Ctx_new)))"
  proof -
    have "calls (snd (drawBars_upto (Date_fixed 120) ?c (Suc (Suc 0)) Ctx_new)) =
        calls (snd (drawBars_upto (Date_fixed 120) ?c (Suc 0) Ctx_new)) @
        [FillRect (if Open (data ?c ! Suc 0) < Close (data ?c ! Suc 0) then ''green'' else ''red'')
          (bar_x ?c (Suc 0)) (bar_y ?c (data ?c ! Suc 0)) (barWidth ?c * scale ?c)
          (barHeight ?c (data ?c ! Suc 0))]"
      using step [of "Suc 0"] len by (simp add: bars day_bars_dates)
    then show ?thesis by (simp add: labels_append)
  qed
  have s2: "labels (calls (snd (drawBars_upto (Date_fixed 120) ?c (Suc 2) Ctx_new))) =
     labels (calls (snd (drawBars_upto (Date_fixed 120) ?c 2 Ctx_new)))
       @ [FillText ''black'' ''center'' ''2.1.2024'' (Num 250) (Num 95)]"
  proof -
    have "calls (snd (drawBars_upto (Date_fixed 120) ?c (Suc 2) Ctx_new)) =
        calls (snd (drawBars_upto (Date_fixed 120) ?c 2 Ctx_new)) @
        [FillRect (if Open (data ?c ! 2) < Close (data ?c ! 2) then ''green'' else ''red'')
          (bar_x ?c 2) (bar_y ?c (data ?c ! 2)) (barWidth ?c * scale ?c) (barHeight ?c (data ?c ! 2)),
         FillText ''black'' ''center'' ''2.1.2024'' (Num 250) (Num 95)]"
      using step [of 2] len by (simp add: bars geo day_bars_dates)
    then show ?thesis by (simp add: labels_append)
  qed
  have A: "length (labels (calls (drawBars (Date_fixed 120) ?c Ctx_new))) = 2"
    using count len by (simp add: bars day_bars_dates Ctx_new_def upt_rec)
  have B: "length (labels (calls (drawBars (Date_fixed 120) (Chart_new same_day_bars example_canvas) Ctx_new))) = 1"
    using date_labels [of "Chart_new same_day_bars example_canvas" "Date_fixed 120" Ctx_new 0 0,
            THEN conjunct2, THEN conjunct2, THEN conjunct1]
    by (simp add: Chart_new_fields same_day_bars_def day_bars_dates Ctx_new_def upt_rec)
  have n: "(1::nat) = Suc 0" "(2::nat) = Suc (Suc 0)" "(3::nat) = Suc 2" by simp_all
  show ?thesis
    using s0 s1 s2 A B len by (simp add: n)
qed

section \<open>Reachable states\<close>

lemma reachable_fields:
  assumes "c = fst (handleEvents nd es (Chart_new bars cv, g))"
  shows "data c = bars" "canvas c = cv" "minPrice c = minPrice (Chart_new bars cv)"
    "maxPrice c = maxPrice (Chart_new bars cv)" "\<exists>r. scale c = Num r \<and> 1 \<le> r"
  using assms handleEvents_frame [of nd es "(Chart_new bars cv, g)"] reachable_scale [of nd es bars cv g]
  by (simp_all add: Chart_new_fields)

lemma example_canvas_size: "width example_canvas = 300" "height example_canvas = 100"
  by (simp_all add: example_canvas_def)

section \<open>A price range of width zero\<close>

lemma not_finite_times: "\<not> isFinite a \<Longrightarrow> \<not> isFinite (a * Num x)"
  by (cases a) simp_all

lemma not_finite_minus_right: "\<not> isFinite a \<Longrightarrow> \<not> isFinite (b - a)"
  by (cases a; cases b) simp_all

lemma not_finite_minus_left: "\<not> isFinite a \<Longrightarrow> \<not> isFinite (a - b)"
  by (cases a; cases b) simp_all

text \<open>
  C2, as amended. When \<open>maxPrice\<close> equals \<open>minPrice\<close> in a state reached from the
  construction, nothing is special-cased: the vertical mapping divides by zero, and for
  every bar the computed \<open>y\<close> and \<open>barHeight\<close> are NaN or an infinity. The render pass
  still runs to its end: it clears, strokes the border and calls \<open>fillRect\<close> once per
  bar, with these values.
\<close>

theorem degenerate_range:
  assumes "c = fst (handleEvents nd es (Chart_new bars cv, g))"
    and "maxPrice c = minPrice c"
  shows "\<not> isFinite (bar_y c bar) \<and> \<not> isFinite (barHeight c bar) \<and>
         calls (drawChart nd c g') =
           calls g' @ [ClearRect (Num 0) (Num 0) (canvasWidth c) (canvasHeight c),
                       StrokeRect ''#000'' (Num 0) (Num 0) (canvasWidth c) (canvasHeight c)]
             @ bars_calls nd c 0 (data c) None \<and>
         length (fill_styles (calls (drawChart nd c g'))) =
           length (fill_styles (calls g')) + length (data c)"
proof -
  obtain s where s: "scale c = Num s"
    using reachable_fields(5) [OF assms(1)] by blast
  have d: "data c = bars" using reachable_fields(1) [OF assms(1)] .
  have ne: "bars \<noteq> []"
  proof
    assume "bars = []"
    then have "minPrice c = PInf" "maxPrice c = NInf"
      using reachable_fields(3,4) [OF assms(1)]
      by (simp_all add: Chart_new_def calculatePriceRange_def Let_def Math_min_def Math_max_def)
    then show False using assms(2) by simp
  qed
  obtain m where m: "minPrice c = Num m"
    using reachable_fields(3) [OF assms(1)] Chart_new_minPrice [OF ne, of cv] by simp
  have z: "maxPrice c - minPrice c = Num 0" by (simp add: assms(2) m)
  have sh: "scaledHeight c = Num (real (height (canvas c)) * s)"
    by (simp add: scaledHeight_def canvasHeight_def s)
  have frac: "\<not> isFinite ((Num (Close bar) - minPrice c) / (maxPrice c - minPrice c))"
    by (simp only: z) (simp add: m)
  have span: "\<not> isFinite ((Num (High bar) - Num (Low bar)) / (maxPrice c - minPrice c))"
    by (simp only: z) simp
  have y: "\<not> isFinite (bar_y c bar)"
    unfolding bar_y_def bar_y_scaled_def sh
    by (intro not_finite_minus_left not_finite_minus_right not_finite_times frac)
  have h: "\<not> isFinite (barHeight c bar)"
    unfolding barHeight_def sh by (intro not_finite_times span)
  have n: "length (fill_styles (calls (drawChart nd c g'))) =
           length (fill_styles (calls g')) + length (data c)"
    by (simp add: drawChart_calls fill_styles_append fill_styles_bars_calls)
  show ?thesis using y h n drawChart_calls [of nd c g'] by simp
qed

text \<open>A single flat bar at 10 on the 300 by 100 surface: \<open>y\<close> and \<open>barHeight\<close> are
  both \<open>0 / 0\<close>, and \<open>fillRect\<close> is called with them.\<close>

theorem degenerate_range_counterexample:
  "maxPrice (Chart_new flat_bars example_canvas) = minPrice (Chart_new flat_bars example_canvas) \<and>
   bar_y (Chart_new flat_bars example_canvas) (flat_bars ! 0) = NaN \<and>
   barHeight (Chart_new flat_bars example_canvas) (flat_bars ! 0) = NaN \<and>
   calls (drawChart (Date_fixed 0) (Chart_new flat_bars example_canvas) Ctx_new) =
     [ClearRect (Num 0) (Num 0) (Num 300) (Num 100),
      StrokeRect ''#000'' (Num 0) (Num 0) (Num 300) (Num 100),
      FillRect ''red'' (Num 0) NaN (Num 300) NaN,
      FillText ''black'' ''center'' ''1.1.1970'' (Num 150) (Num 95)]"
proof -
  let ?c = "Chart_new flat_bars example_canvas"
  have ne: "flat_bars \<noteq> []" by (simp add: flat_bars_def)
  have mn: "minPrice ?c = Num 10"
    using Chart_new_minPrice [OF ne, of example_canvas] by (simp add: flat_bars_def)
  have mx: "maxPrice ?c = Num 10"
    using Chart_new_maxPrice [OF ne, of example_canvas] by (simp add: flat_bars_def)
  have b: "Close (flat_bars ! 0) = 10" "High (flat_bars ! 0) = 10" "Low (flat_bars ! 0) = 10"
    "Open (flat_bars ! 0) = 10" "Time (flat_bars ! 0) = 0"
    by (simp_all add: flat_bars_def)
  have geo: "canvasWidth ?c = Num 300" "canvasHeight ?c = Num 100" "scale ?c = Num 1"
    "scaledHeight ?c = Num 100" "barWidth ?c = Num 300" "bar_x ?c 0 = Num 0"
    "labelX ?c 0 = Num 150"
    by (simp_all add: canvasWidth_def canvasHeight_def scaledHeight_def barWidth_def bar_x_def
          labelX_def dataLength_def drawBars_offsetX_def scaledWidth_def Chart_new_fields
          example_canvas_size flat_bars_def)
  have y: "bar_y ?c (flat_bars ! 0) = NaN"
    by (simp add: bar_y_def bar_y_scaled_def geo mn mx b)
  have h: "barHeight ?c (flat_bars ! 0) = NaN"
    by (simp add: barHeight_def geo mn mx b)
  have dt: "getDateFromBar (Date_fixed 0) 0 = ''1.1.1970''" by code_simp
  have l: "data ?c = [flat_bars ! 0]" by (simp add: Chart_new_fields flat_bars_def)
  have "calls (drawChart (Date_fixed 0) ?c Ctx_new) =
     [ClearRect (Num 0) (Num 0) (Num 300) (Num 100),
      StrokeRect ''#000'' (Num 0) (Num 0) (Num 300) (Num 100),
      FillRect ''red'' (Num 0) NaN (Num 300) NaN,
      FillText ''black'' ''center'' ''1.1.1970'' (Num 150) (Num 95)]"
    by (simp add: drawChart_calls l bar_calls_def geo y h b dt Ctx_new_def)
  then show ?thesis using y h by (simp add: mn mx)
qed

theorem degenerate_range_witness:
  "maxPrice (Chart_new flat_bars example_canvas) = minPrice (Chart_new flat_bars example_canvas) \<and>
   \<not> isFinite (bar_y (Chart_new flat_bars example_canvas) (flat_bars ! 0)) \<and>
   \<not> isFinite (barHeight (Chart_new flat_bars example_canvas) (flat_bars ! 0)) \<and>
   length (fill_styles (calls (drawChart (Date_fixed 0) (Chart_new flat_bars example_canvas) Ctx_new))) = 1"
proof -
  let ?c = "Chart_new flat_bars example_canvas"
  have ne: "flat_bars \<noteq> []" by (simp add: flat_bars_def)
  have c: "?c = fst (handleEvents (Date_fixed 0) [] (?c, Ctx_new))"
    by (simp add: handleEvents_def)
  have mn: "minPrice ?c = Num 10"
    using Chart_new_minPrice [OF ne, of example_canvas] by (simp add: flat_bars_def)
  have mx: "maxPrice ?c = Num 10"
    using Chart_new_maxPrice [OF ne, of example_canvas] by (simp add: flat_bars_def)
  have eq: "maxPrice ?c = minPrice ?c" by (simp add: mn mx)
  have len: "length (data ?c) = 1" by (simp add: Chart_new_fields flat_bars_def)
  note inst = degenerate_range [OF c eq, where bar = "flat_bars ! 0" and g' = Ctx_new]
  have n: "length (fill_styles (calls (drawChart (Date_fixed 0) ?c Ctx_new))) = 1"
    using inst [THEN conjunct2, THEN conjunct2, THEN conjunct2] len by (simp add: Ctx_new_def)
  show ?thesis
    using inst [THEN conjunct1] inst [THEN conjunct2, THEN conjunct1] eq n by blast
qed

section \<open>Zoom: the point under the pointer\<close>

lemma chart0_fields:
  "data chart0 = example_bars" "canvas chart0 = example_canvas" "scale chart0 = Num 1"
  "offsetX chart0 = Num 0" "offsetY chart0 = Num 0" "minPrice chart0 = Num 8"
  "maxPrice chart0 = Num 12"
proof -
  have ne: "example_bars \<noteq> []" by (simp add: example_bars_def)
  show "data chart0 = example_bars" "canvas chart0 = example_canvas" "scale chart0 = Num 1"
    "offsetX chart0 = Num 0" "offsetY chart0 = Num 0"
    by (simp_all add: chart0_def Chart_new_fields)
  show "minPrice chart0 = Num 8"
    using Chart_new_minPrice [OF ne, of example_canvas] by (simp add: example_bars_def chart0_def)
  show "maxPrice chart0 = Num 12"
    using Chart_new_maxPrice [OF ne, of example_canvas] by (simp add: example_bars_def chart0_def)
qed

lemma wheel_fields:
  "scale (fst (handleMouseWheel nd ev rect (c, g))) =
     Math_max [Num 1, scale c * (if 0 < deltaY ev then Num (11 / 10) else Num (9 / 10))]"
  "offsetX (fst (handleMouseWheel nd ev rect (c, g))) =
     (Num (clientX ev) - Num (rect_left rect))
       - ((Num (clientX ev) - Num (rect_left rect)) - offsetX c)
         * (scale (fst (handleMouseWheel nd ev rect (c, g))) / scale c)"
  "offsetY (fst (handleMouseWheel nd ev rect (c, g))) =
     (Num (clientY ev) - Num (rect_top rect))
       - ((Num (clientY ev) - Num (rect_top rect)) - offsetY c)
         * (scale (fst (handleMouseWheel nd ev rect (c, g))) / scale c)"
  "data (fst (handleMouseWheel nd ev rect (c, g))) = data c"
  "canvas (fst (handleMouseWheel nd ev rect (c, g))) = canvas c"
  "minPrice (fst (handleMouseWheel nd ev rect (c, g))) = minPrice c"
  "maxPrice (fst (handleMouseWheel nd ev rect (c, g))) = maxPrice c"
  by (simp_all add: handleMouseWheel_def Let_def Math_sign_pos)

text \<open>
  C1. The claim is that the chart location drawn under the pointer before a wheel
  event is drawn under the pointer after it. The code does not achieve this. On the
  example chart the top left corner of bar 0 is drawn at pixel (0, 25); after one
  wheel event with a positive delta at exactly that point the scale is 1.1 and the
  same corner is drawn at (15, 35). The handler's update fits a map
  \<open>pixel = location * scale + offset\<close>, whereas \<open>drawBars\<close> subtracts the offset and
  adds the centring term \<open>(scale - 1) * size / 2\<close>.
\<close>

theorem zoom_moves_point_under_pointer:
  "Num (clientX wheel_on_bar0) - Num (rect_left rect0) = Num 0 \<and>
   Num (clientY wheel_on_bar0) - Num (rect_top rect0) = Num 25 \<and>
   bar_x chart0 0 = Num 0 \<and>
   bar_y chart0 (example_bars ! 0) = Num 25 \<and>
   scale (fst (handleMouseWheel (Date_fixed 0) wheel_on_bar0 rect0 (chart0, Ctx_new))) = Num (11 / 10) \<and>
   offsetX (fst (handleMouseWheel (Date_fixed 0) wheel_on_bar0 rect0 (chart0, Ctx_new))) = Num 0 \<and>
   offsetY (fst (handleMouseWheel (Date_fixed 0) wheel_on_bar0 rect0 (chart0, Ctx_new))) = Num (- 5 / 2) \<and>
   bar_x (fst (handleMouseWheel (Date_fixed 0) wheel_on_bar0 rect0 (chart0, Ctx_new))) 0 = Num 15 \<and>
   bar_y (fst (handleMouseWheel (Date_fixed 0) wheel_on_bar0 rect0 (chart0, Ctx_new))) (example_bars ! 0) = Num 35"
proof -
  let ?c = "fst (handleMouseWheel (Date_fixed 0) wheel_on_bar0 rect0 (chart0, Ctx_new))"
  have ev: "clientX wheel_on_bar0 = 0" "clientY wheel_on_bar0 = 25" "deltaY wheel_on_bar0 = 100"
    "rect_left rect0 = 0" "rect_top rect0 = 0"
    by (simp_all add: wheel_on_bar0_def rect0_def)
  have b: "Close (example_bars ! 0) = 11" "length example_bars = 3"
    by (simp_all add: example_bars_def)
  have sc: "scale ?c = Num (11 / 10)"
    by (simp add: wheel_fields(1) ev chart0_fields Math_max_floor)
  have ox: "offsetX ?c = Num 0"
    by (simp add: wheel_fields(2) sc ev chart0_fields)
  have oy: "offsetY ?c = Num (- 5 / 2)"
    by (simp add: wheel_fields(3) sc ev chart0_fields)
  have x0: "bar_x chart0 0 = Num 0"
    by (simp add: bar_x_def canvasWidth_def dataLength_def drawBars_offsetX_def scaledWidth_def
          chart0_fields example_canvas_size b)
  have y0: "bar_y chart0 (example_bars ! 0) = Num 25"
    by (simp add: bar_y_def bar_y_scaled_def scaledHeight_def canvasHeight_def
          drawBars_offsetY_def chart0_fields example_canvas_size b)
  have x1: "bar_x ?c 0 = Num 15"
    by (simp add: bar_x_def canvasWidth_def dataLength_def drawBars_offsetX_def scaledWidth_def
          wheel_fields(4-7) sc ox chart0_fields example_canvas_size b)
  have y1: "bar_y ?c (example_bars ! 0) = Num 35"
    by (simp add: bar_y_def bar_y_scaled_def scaledHeight_def canvasHeight_def
          drawBars_offsetY_def wheel_fields(4-7) sc oy chart0_fields example_canvas_size b)
  show ?thesis using sc ox oy x0 y0 x1 y1 by (simp add: ev)
qed

section \<open>The place of a date label\<close>

text \<open>
  C7. The claim is that a label's \<open>x\<close> is the centre of its bar as drawn, left edge plus
  half the drawn width \<open>barWidth * scale\<close>. The code adds half of the unscaled
  \<open>barWidth\<close> instead, which is the centre only at scale 1: on the example chart the
  label of bar 0 is at 50, the centre of the bar; after one zoom step the bar spans
  15 to 125, its centre is 70, and the label is drawn at 65. The \<open>y\<close> of a label is
  \<open>height - 5\<close> as claimed.
\<close>

theorem label_off_centre_when_zoomed:
  "labelX chart0 0 = Num 50 \<and>
   bar_x chart0 0 + barWidth chart0 * scale chart0 / Num 2 = Num 50 \<and>
   scale (fst (handleMouseWheel (Date_fixed 0) wheel_out rect0 (chart0, Ctx_new))) = Num (11 / 10) \<and>
   bar_x (fst (handleMouseWheel (Date_fixed 0) wheel_out rect0 (chart0, Ctx_new))) 0 = Num 15 \<and>
   barWidth (fst (handleMouseWheel (Date_fixed 0) wheel_out rect0 (chart0, Ctx_new)))
     * scale (fst (handleMouseWheel (Date_fixed 0) wheel_out rect0 (chart0, Ctx_new))) = Num 110 \<and>
   bar_x (fst (handleMouseWheel (Date_fixed 0) wheel_out rect0 (chart0, Ctx_new))) 0
     + barWidth (fst (handleMouseWheel (Date_fixed 0) wheel_out rect0 (chart0, Ctx_new)))
       * scale (fst (handleMouseWheel (Date_fixed 0) wheel_out rect0 (chart0, Ctx_new))) / Num 2 = Num 70 \<and>
   labelX (fst (handleMouseWheel (Date_fixed 0) wheel_out rect0 (chart0, Ctx_new))) 0 = Num 65 \<and>
   labels (calls (drawBars (Date_fixed 0)
     (fst (handleMouseWheel (Date_fixed 0) wheel_out rect0 (chart0, Ctx_new))) Ctx_new)) =
     [FillText ''black'' ''center'' ''1.1.1970'' (Num 65) (Num 95)]"
proof -
  let ?c = "fst (handleMouseWheel (Date_fixed 0) wheel_out rect0 (chart0, Ctx_new))"
  have ev: "clientX wheel_out = 0" "clientY wheel_out = 0" "deltaY wheel_out = 100"
    "rect_left rect0 = 0" "rect_top rect0 = 0"
    by (simp_all add: wheel_out_def rect0_def)
  have b: "length example_bars = 3" by (simp add: example_bars_def)
  have sc: "scale ?c = Num (11 / 10)"
    by (simp add: wheel_fields(1) ev chart0_fields Math_max_floor)
  have ox: "offsetX ?c = Num 0"
    by (simp add: wheel_fields(2) sc ev chart0_fields)
  have l0: "labelX chart0 0 = Num 50"
    by (simp add: labelX_def barWidth_def canvasWidth_def dataLength_def drawBars_offsetX_def
          scaledWidth_def chart0_fields example_canvas_size b)
  have m0: "bar_x chart0 0 + barWidth chart0 * scale chart0 / Num 2 = Num 50"
    by (simp add: bar_x_def barWidth_def canvasWidth_def dataLength_def drawBars_offsetX_def
          scaledWidth_def chart0_fields example_canvas_size b)
  have x1: "bar_x ?c 0 = Num 15"
    by (simp add: bar_x_def canvasWidth_def dataLength_def drawBars_offsetX_def scaledWidth_def
          wheel_fields(4-7) sc ox chart0_fields example_canvas_size b)
  have w1: "barWidth ?c * scale ?c = Num 110"
    by (simp add: barWidth_def canvasWidth_def dataLength_def
          wheel_fields(4-7) sc chart0_fields example_canvas_size b)
  have l1: "labelX ?c 0 = Num 65"
    by (simp add: labelX_def barWidth_def canvasWidth_def dataLength_def drawBars_offsetX_def
          scaledWidth_def wheel_fields(4-7) sc ox chart0_fields example_canvas_size b)
  have ch: "canvasHeight ?c - Num 5 = Num 95"
    by (simp add: canvasHeight_def wheel_fields(4-7) chart0_fields example_canvas_size)
  have dt: "getDateFromBar (Date_fixed 0) 0 = ''1.1.1970''" by code_simp
  have d: "data ?c = example_bars" by (simp add: wheel_fields(4-7) chart0_fields)
  have cn: "calls Ctx_new = []" by (simp add: Ctx_new_def)
  have lb: "labels (calls (drawBars (Date_fixed 0) ?c Ctx_new)) =
     [FillText ''black'' ''center'' ''1.1.1970'' (Num 65) (Num 95)]"
    unfolding drawBars_calls d
    by (simp add: example_bars_def bar_calls_def labels_append dt l1 ch cn)
  show ?thesis using l0 m0 sc x1 w1 l1 lb by simp
qed

section \<open>Properties of the rounding\<close>

lemma rne_int [simp]: "rne (of_int k) = k"
  by (simp add: rne_def)

lemma rne_mono: "x \<le> y \<Longrightarrow> rne x \<le> rne y"
proof -
  assume xy: "x \<le> y"
  have fx: "\<lfloor>x\<rfloor> \<le> \<lfloor>y\<rfloor>" using xy by (rule floor_mono)
  have bx: "rne x \<le> \<lfloor>x\<rfloor> + 1" "\<lfloor>y\<rfloor> \<le> rne y"
    by (simp_all add: rne_def Let_def)
  show ?thesis
  proof (cases "\<lfloor>x\<rfloor> = \<lfloor>y\<rfloor>")
    case True
    then show ?thesis using xy by (auto simp: rne_def Let_def)
  next
    case False
    then have "\<lfloor>x\<rfloor> + 1 \<le> \<lfloor>y\<rfloor>" using fx by simp
    then show ?thesis using bx by linarith
  qed
qed

lemma rne_ge: "of_int k \<le> y \<Longrightarrow> k \<le> rne y"
  using rne_mono [of "of_int k" y] by simp

lemma rne_le: "y \<le> of_int k \<Longrightarrow> rne y \<le> k"
  using rne_mono [of y "of_int k"] by simp

lemma rne_minus: "rne (- y) = - rne y"
proof (cases "y = of_int \<lfloor>y\<rfloor>")
  case True
  then have "rne y = \<lfloor>y\<rfloor>" "rne (- y) = - \<lfloor>y\<rfloor>"
    by (metis rne_int of_int_minus)+
  then show ?thesis by simp
next
  case False
  then have f: "\<lfloor>- y\<rfloor> = - \<lfloor>y\<rfloor> - 1"
    by (metis Ints_of_int ceiling_altdef ceiling_def floor_of_int of_int_floor_cancel add_diff_cancel minus_diff_eq uminus_add_conv_diff diff_minus_eq_add minus_minus)
  show ?thesis
    using False by (auto simp: rne_def Let_def f)
qed

lemma rne_bound:
  assumes "\<bar>y\<bar> < 2 ^ 53"
  shows "\<bar>rne y\<bar> \<le> 2 ^ 53"
proof -
  have lo: "of_int (- (2 ^ 53)) \<le> y" and hi: "y \<le> of_int (2 ^ 53)"
    using assms by simp_all
  have "- (2 ^ 53) \<le> rne y" using lo by (rule rne_ge)
  moreover have "rne y \<le> 2 ^ 53" using hi by (rule rne_le)
  ultimately show ?thesis by linarith
qed

lemma rne_numeral [simp]: "rne (numeral k) = numeral k" "rne (- numeral k) = - numeral k"
  using rne_int [of "numeral k"] rne_int [of "- numeral k"] by simp_all

lemma ulp_le_huge: "53 + ulp_exp \<le> huge_exp"
  by (simp add: ulp_exp_def huge_exp_def)

lemma bitlen_le: "n < 2 ^ k \<Longrightarrow> bitlen n \<le> int k"
  by (simp add: bitlen_le_iff_power)

lemma bitlen_less_pow: "bitlen n \<le> int k \<Longrightarrow> n < 2 ^ k"
  using bitlen_le_iff_power [of n "int k"] by simp

lemma bitlen_ge_pow: "int (Suc k) \<le> bitlen n \<Longrightarrow> 2 ^ k \<le> n"
  using bitlen_ge_iff_power [of "int (Suc k)" n] by (simp add: nat_add_distrib)

lemma bitlen_eq:
  assumes "2 ^ k \<le> n" "n < 2 ^ Suc k"
  shows "bitlen n = int (Suc k)"
proof -
  have "bitlen n \<le> int (Suc k)" using assms(2) by (rule bitlen_le)
  moreover have "int (Suc k) \<le> bitlen n"
    using assms(1) bitlen_ge_iff_power [of "int (Suc k)" n] by (simp add: nat_add_distrib)
  ultimately show ?thesis by simp
qed

text \<open>The integers \<open>m * 2 ^ s\<close> with \<open>\<bar>m\<bar> < 2 ^ 53\<close>, in units of \<open>2 ^ -1074\<close>, are
  doubles; every finite value of \<open>fl\<close> is one of them, so \<open>fl\<close> is idempotent.\<close>

lemma fl_grid:
  assumes m: "\<bar>m\<bar> < 2 ^ 53" and r: "\<bar>m * 2 ^ s\<bar> < (2::int) ^ huge_exp"
  shows "fl (of_int (m * 2 ^ s) / 2 ^ ulp_exp) = Num (of_int (m * 2 ^ s) / 2 ^ ulp_exp)"
proof -
  let ?R = "m * 2 ^ s"
  let ?t = "(of_int ?R / 2 ^ ulp_exp) * (2::real) ^ ulp_exp"
  have t: "?t = of_int ?R" by simp
  have n: "\<lfloor>\<bar>of_int ?R :: real\<bar>\<rfloor> = \<bar>?R\<bar>"
    by (metis floor_of_int of_int_abs)
  have "\<bar>?R\<bar> < 2 ^ (53 + s)"
    using m by (simp add: abs_mult power_add)
  then have "bitlen \<bar>?R\<bar> \<le> int (53 + s)" by (rule bitlen_le)
  then have le: "nat (bitlen \<bar>?R\<bar> - 53) \<le> s" by simp
  define j where "j = nat (bitlen \<bar>?R\<bar> - 53)"
  obtain d where d: "s = j + d" using le j_def by (metis le_Suc_ex)
  have q: "(of_int ?R :: real) / of_int (2 ^ j) = of_int (m * 2 ^ d)"
    by (simp add: d power_add)
  have "rne (of_int ?R / of_int (2 ^ j)) * 2 ^ j = ?R"
    unfolding q rne_int by (simp add: d power_add)
  then show ?thesis
    using r unfolding fl_def t n Let_def j_def [symmetric] by simp
qed

lemma grid_bounds:
  fixes t :: real
  defines "j \<equiv> nat (bitlen \<lfloor>\<bar>t\<bar>\<rfloor> - 53)"
  shows "\<bar>t\<bar> < 2 ^ (53 + j)" and "0 < j \<Longrightarrow> 2 ^ (52 + j) \<le> \<bar>t\<bar>"
proof -
  let ?n = "\<lfloor>\<bar>t\<bar>\<rfloor>"
  have "bitlen ?n \<le> int (53 + j)" by (simp add: j_def)
  then have "?n < 2 ^ (53 + j)" by (rule bitlen_less_pow)
  then have "?n + 1 \<le> 2 ^ (53 + j)" by simp
  then have "(of_int (?n + 1) :: real) \<le> of_int (2 ^ (53 + j))" by (rule of_int_le_iff [THEN iffD2])
  then have a: "real_of_int ?n + 1 \<le> 2 ^ (53 + j)" by simp
  have "\<bar>t\<bar> < real_of_int ?n + 1" by linarith
  then show "\<bar>t\<bar> < 2 ^ (53 + j)" using a by linarith
  assume "0 < j"
  then have "int (Suc (52 + j)) \<le> bitlen ?n" by (simp add: j_def)
  then have "2 ^ (52 + j) \<le> ?n" by (rule bitlen_ge_pow)
  then have "(of_int (2 ^ (52 + j)) :: real) \<le> of_int ?n" by (rule of_int_le_iff [THEN iffD2])
  then have b: "2 ^ (52 + j) \<le> real_of_int ?n" by simp
  have "real_of_int ?n \<le> \<bar>t\<bar>" by linarith
  then show "2 ^ (52 + j) \<le> \<bar>t\<bar>" using b by linarith
qed

lemma grid_quotient:
  fixes t :: real
  defines "j \<equiv> nat (bitlen \<lfloor>\<bar>t\<bar>\<rfloor> - 53)"
  shows "\<bar>rne (t / of_int (2 ^ j))\<bar> \<le> 2 ^ 53"
proof -
  define q where "q = t / of_int (2 ^ j)"
  have "\<bar>t\<bar> < 2 ^ 53 * 2 ^ j" using grid_bounds(1) [of t] by (simp add: j_def power_add)
  then have "\<bar>q\<bar> < 2 ^ 53" by (simp add: q_def abs_divide divide_less_eq)
  then have lo: "of_int (- (2 ^ 53)) \<le> q" and hi: "q \<le> of_int (2 ^ 53)"
    by simp_all
  have "- (2 ^ 53) \<le> rne q" using lo by (rule rne_ge)
  moreover have "rne q \<le> 2 ^ 53" using hi by (rule rne_le)
  ultimately show ?thesis unfolding q_def by linarith
qed

lemma fl_value:
  assumes "fl x = Num y"
  shows "\<exists>m s. \<bar>m\<bar> < 2 ^ 53 \<and> \<bar>m * 2 ^ s\<bar> < (2::int) ^ huge_exp \<and> y = of_int (m * 2 ^ s) / 2 ^ ulp_exp"
proof -
  define t where "t = x * 2 ^ ulp_exp"
  define j where "j = nat (bitlen \<lfloor>\<bar>t\<bar>\<rfloor> - 53)"
  define M where "M = rne (t / of_int (2 ^ j))"
  have M: "\<bar>M\<bar> \<le> 2 ^ 53" unfolding M_def j_def by (rule grid_quotient)
  have r: "\<bar>M * 2 ^ j\<bar> < 2 ^ huge_exp" and y: "y = of_int (M * 2 ^ j) / 2 ^ ulp_exp"
    using assms unfolding fl_def Let_def t_def [symmetric] j_def [symmetric] M_def [symmetric]
    by (simp_all split: if_splits)
  show ?thesis
  proof (cases "\<bar>M\<bar> < 2 ^ 53")
    case True
    then show ?thesis using r y by blast
  next
    case False
    then have "M = 2 ^ 53 \<or> M = - (2 ^ 53)" using M by linarith
    then have e: "M * 2 ^ j = (M div 2) * 2 ^ Suc j" and b: "\<bar>M div 2\<bar> < 2 ^ 53"
      by auto
    show ?thesis
      using r y b unfolding e by blast
  qed
qed

lemma fl_idem: "fl x = Num y \<Longrightarrow> fl y = Num y"
proof -
  assume "fl x = Num y"
  then obtain m s where ms: "\<bar>m\<bar> < 2 ^ 53" "\<bar>m * 2 ^ s\<bar> < (2::int) ^ huge_exp"
    and y: "y = of_int (m * 2 ^ s) / 2 ^ ulp_exp"
    using fl_value by blast
  show ?thesis unfolding y by (rule fl_grid [OF ms])
qed

lemma fl_int: "\<bar>k\<bar> < 2 ^ 53 \<Longrightarrow> fl (of_int k) = Num (of_int k)"
proof -
  assume k: "\<bar>k\<bar> < 2 ^ 53"
  have "\<bar>k * 2 ^ ulp_exp\<bar> < (2::int) ^ 53 * 2 ^ ulp_exp"
    using k by (simp add: abs_mult)
  also have "\<dots> = 2 ^ (53 + ulp_exp)" by (simp add: power_add)
  also have "\<dots> \<le> 2 ^ huge_exp" using ulp_le_huge by (rule power_increasing) simp
  finally have "\<bar>k * 2 ^ ulp_exp\<bar> < (2::int) ^ huge_exp" .
  then show ?thesis using fl_grid [OF k, of ulp_exp] by simp
qed

lemma fl_Ints: "x \<in> \<int> \<Longrightarrow> \<bar>x\<bar> < 2 ^ 53 \<Longrightarrow> fl x = Num x"
proof -
  assume "x \<in> \<int>" and b: "\<bar>x\<bar> < 2 ^ 53"
  then obtain k :: int where k: "x = of_int k" by (auto elim: Ints_cases)
  have "\<bar>real_of_int k\<bar> < real_of_int (2 ^ 53)" using b k by simp
  then have "\<bar>k\<bar> < 2 ^ 53" by (metis of_int_abs of_int_less_iff)
  then show ?thesis unfolding k by (rule fl_int)
qed

lemma fl_0 [simp]: "fl 0 = Num 0"
  using fl_int [of 0] by simp

lemma fl_1 [simp]: "fl 1 = Num 1"
  using fl_int [of 1] by simp

lemma fl_ulp: "fl (1 / 2 ^ ulp_exp) = Num (1 / 2 ^ ulp_exp)"
  using fl_grid [of 1 0] by (simp add: huge_exp_def)

lemma fl_not_NaN [simp]: "fl x \<noteq> NaN"
  by (simp add: fl_def Let_def)

lemma round64_not_NaN: "a \<noteq> NaN \<Longrightarrow> round64 a \<noteq> NaN"
  by (cases a) simp_all

lemma double_grid:
  assumes "is_double a"
  shows "\<exists>k::int. a = of_int k / 2 ^ ulp_exp"
proof -
  obtain m :: int and s :: nat where "a = of_int (m * 2 ^ s) / 2 ^ ulp_exp"
    using fl_value [of a a] assms by (auto simp: is_double_def)
  then show ?thesis by blast
qed

text \<open>Rounding is monotone.\<close>

lemma grid_exp_mono:
  fixes t t' :: real
  assumes "\<bar>t\<bar> \<le> \<bar>t'\<bar>"
  shows "nat (bitlen \<lfloor>\<bar>t\<bar>\<rfloor> - 53) \<le> nat (bitlen \<lfloor>\<bar>t'\<bar>\<rfloor> - 53)"
proof -
  have "\<lfloor>\<bar>t\<bar>\<rfloor> \<le> \<lfloor>\<bar>t'\<bar>\<rfloor>" using assms by (rule floor_mono)
  then have "bitlen \<lfloor>\<bar>t\<bar>\<rfloor> \<le> bitlen \<lfloor>\<bar>t'\<bar>\<rfloor>"
    by (metis bitlen_le_iff_power bitlen_nonneg order_le_less_trans order_refl)
  then show ?thesis by simp
qed

lemma fl_grid_round:
  "fl x = (if 2 ^ huge_exp \<le> \<bar>grid_round (x * 2 ^ ulp_exp)\<bar> then (if 0 < x then PInf else NInf)
           else Num (of_int (grid_round (x * 2 ^ ulp_exp)) / 2 ^ ulp_exp))"
  by (simp add: fl_def grid_round_def Let_def)

lemma grid_round_minus: "grid_round (- t) = - grid_round t"
  by (simp add: grid_round_def rne_minus)

lemma grid_round_nonneg: "0 \<le> t \<Longrightarrow> 0 \<le> grid_round t"
proof -
  assume "0 \<le> t"
  then have "of_int 0 \<le> t / of_int (2 ^ nat (bitlen \<lfloor>\<bar>t\<bar>\<rfloor> - 53))" by simp
  then have "0 \<le> rne (t / of_int (2 ^ nat (bitlen \<lfloor>\<bar>t\<bar>\<rfloor> - 53)))" by (rule rne_ge)
  then show ?thesis by (simp add: grid_round_def)
qed

lemma grid_round_mono_pos:
  assumes "0 \<le> t" "t \<le> t'"
  shows "grid_round t \<le> grid_round t'"
proof -
  define j where "j = nat (bitlen \<lfloor>\<bar>t\<bar>\<rfloor> - 53)"
  define j' where "j' = nat (bitlen \<lfloor>\<bar>t'\<bar>\<rfloor> - 53)"
  have jj: "j \<le> j'" unfolding j_def j'_def using assms by (intro grid_exp_mono) simp
  have g: "grid_round t = rne (t / of_int (2 ^ j)) * 2 ^ j"
    "grid_round t' = rne (t' / of_int (2 ^ j')) * 2 ^ j'"
    by (simp_all add: grid_round_def j_def j'_def)
  show ?thesis
  proof (cases "j = j'")
    case True
    have "t / of_int (2 ^ j) \<le> t' / of_int (2 ^ j)" using assms by (simp add: divide_right_mono)
    then have "rne (t / of_int (2 ^ j)) \<le> rne (t' / of_int (2 ^ j))" by (rule rne_mono)
    then show ?thesis unfolding g True [symmetric] by simp
  next
    case False
    then have lt: "Suc j \<le> j'" and pos: "0 < j'" using jj by simp_all
    have "rne (t / of_int (2 ^ j)) \<le> 2 ^ 53"
      using grid_quotient [of t] unfolding j_def by linarith
    then have "grid_round t \<le> 2 ^ 53 * 2 ^ j" unfolding g by simp
    also have "\<dots> = 2 ^ (52 + Suc j)" by (simp add: power_add)
    also have "\<dots> \<le> (2::int) ^ (52 + j')" using lt by (intro power_increasing) simp_all
    finally have up: "grid_round t \<le> 2 ^ (52 + j')" .
    have "2 ^ (52 + j') \<le> \<bar>t'\<bar>" using grid_bounds(2) [of t'] pos unfolding j'_def by simp
    then have "2 ^ 52 * 2 ^ j' \<le> t'" using assms by (simp add: power_add)
    then have "of_int (2 ^ 52) \<le> t' / of_int (2 ^ j')" by (simp add: le_divide_eq)
    then have "2 ^ 52 \<le> rne (t' / of_int (2 ^ j'))" by (rule rne_ge)
    then have "2 ^ 52 * 2 ^ j' \<le> grid_round t'" unfolding g by simp
    then have "2 ^ (52 + j') \<le> grid_round t'" by (simp add: power_add)
    then show ?thesis using up by linarith
  qed
qed

lemma grid_round_mono: "t \<le> t' \<Longrightarrow> grid_round t \<le> grid_round t'"
proof -
  assume le: "t \<le> t'"
  consider "0 \<le> t" | "t' \<le> 0" | "t < 0" "0 < t'" by linarith
  then show ?thesis
  proof cases
    case 1
    then show ?thesis using le by (rule grid_round_mono_pos)
  next
    case 2
    then have "grid_round (- t') \<le> grid_round (- t)"
      using le by (intro grid_round_mono_pos) simp_all
    then show ?thesis by (simp add: grid_round_minus)
  next
    case 3
    have "0 \<le> grid_round (- t)" "0 \<le> grid_round t'"
      using 3 by (simp_all add: grid_round_nonneg)
    then show ?thesis by (simp add: grid_round_minus)
  qed
qed

lemma fl_mono: "x \<le> y \<Longrightarrow> fl x \<le> fl y"
proof -
  assume xy: "x \<le> y"
  let ?gx = "grid_round (x * 2 ^ ulp_exp)" and ?gy = "grid_round (y * 2 ^ ulp_exp)"
  have g: "?gx \<le> ?gy" using xy by (intro grid_round_mono) simp
  have sx: "0 < x \<Longrightarrow> 0 \<le> ?gx" "\<not> 0 < x \<Longrightarrow> ?gx \<le> 0"
    using grid_round_nonneg [of "x * 2 ^ ulp_exp"] grid_round_nonneg [of "- (x * 2 ^ ulp_exp)"]
    by (simp_all add: grid_round_minus not_less mult_nonpos_nonneg)
  have sy: "0 < y \<Longrightarrow> 0 \<le> ?gy" "\<not> 0 < y \<Longrightarrow> ?gy \<le> 0"
    using grid_round_nonneg [of "y * 2 ^ ulp_exp"] grid_round_nonneg [of "- (y * 2 ^ ulp_exp)"]
    by (simp_all add: grid_round_minus not_less mult_nonpos_nonneg)
  show ?thesis
    unfolding fl_grid_round [of x] fl_grid_round [of y]
    using g sx sy xy by (auto simp: divide_right_mono)
qed

lemma fl_pos: "0 \<le> x \<Longrightarrow> Num 0 \<le> fl x"
  using fl_mono [of 0 x] by simp

lemma fl_bounded:
  assumes "l \<le> x" "x \<le> u" "fl l = Num l'" "fl u = Num u'"
  shows "\<exists>a. fl x = Num a \<and> l' \<le> a \<and> a \<le> u'"
proof -
  have "Num l' \<le> fl x" "fl x \<le> Num u'"
    using fl_mono [OF assms(1)] fl_mono [OF assms(2)] assms(3,4) by simp_all
  then show ?thesis by (cases "fl x") simp_all
qed

lemma fl_unit:
  assumes "0 \<le> x" "x \<le> 1"
  shows "\<exists>a. fl x = Num a \<and> 0 \<le> a \<and> a \<le> 1"
  using fl_bounded [OF assms, of 0 1] by simp

lemma double_diff_pos:
  assumes "is_double a" "is_double b" "a < b" "fl (b - a) = Num R"
  shows "0 < R"
proof -
  obtain A B :: int where a: "a = of_int A / 2 ^ ulp_exp" and b: "b = of_int B / 2 ^ ulp_exp"
    using double_grid [OF assms(1)] double_grid [OF assms(2)] by blast
  have "A < B" using assms(3) unfolding a b by (simp add: divide_less_cancel)
  then have "1 \<le> B - A" by simp
  then have "(1::real) \<le> of_int (B - A)" by linarith
  then have "1 / 2 ^ ulp_exp \<le> (of_int (B - A) :: real) / 2 ^ ulp_exp"
    by (intro divide_right_mono) simp_all
  also have "\<dots> = b - a" by (simp add: a b diff_divide_distrib)
  finally have "fl (1 / 2 ^ ulp_exp) \<le> fl (b - a)" by (rule fl_mono)
  then have "1 / 2 ^ ulp_exp \<le> R" using assms(4) by (simp add: fl_ulp)
  moreover have "(0::real) < 1 / 2 ^ ulp_exp" by simp
  ultimately show ?thesis by linarith
qed

text \<open>Evaluation: scale into \<open>[2 ^ 52, 2 ^ 53)\<close>, round to an integer, scale back.\<close>

lemma grid_round_scaled:
  fixes y :: real
  assumes lo: "2 ^ 52 \<le> \<bar>y\<bar>" and hi: "\<bar>y\<bar> < 2 ^ 53"
  shows "grid_round (y * 2 ^ j) = rne y * 2 ^ j"
proof -
  define t where "t = y * 2 ^ j"
  have a: "\<bar>t\<bar> = \<bar>y\<bar> * 2 ^ j" by (simp add: t_def abs_mult)
  have "2 ^ 52 * 2 ^ j \<le> \<bar>t\<bar>" unfolding a using lo by (intro mult_right_mono) simp_all
  then have "of_int (2 ^ (52 + j)) \<le> \<bar>t\<bar>" by (simp add: power_add)
  then have n1: "2 ^ (52 + j) \<le> \<lfloor>\<bar>t\<bar>\<rfloor>" by (rule le_floor_iff [THEN iffD2])
  have "\<bar>t\<bar> < 2 ^ 53 * 2 ^ j" unfolding a using hi by (intro mult_strict_right_mono) simp_all
  then have "\<bar>t\<bar> < of_int (2 ^ Suc (52 + j))" by (simp add: power_add)
  then have n2: "\<lfloor>\<bar>t\<bar>\<rfloor> < 2 ^ Suc (52 + j)" by (rule floor_less_iff [THEN iffD2])
  have "bitlen \<lfloor>\<bar>t\<bar>\<rfloor> = int (Suc (52 + j))" using n1 n2 by (rule bitlen_eq)
  then have e: "nat (bitlen \<lfloor>\<bar>t\<bar>\<rfloor> - 53) = j" by simp
  have q: "t / of_int (2 ^ j) = y" by (simp add: t_def)
  show ?thesis unfolding grid_round_def t_def [symmetric] e q ..
qed

lemma fl_normal:
  assumes lo: "2 ^ 52 \<le> \<bar>x\<bar> * 2 ^ p" and hi: "\<bar>x\<bar> * 2 ^ p < 2 ^ 53" and p: "p \<le> ulp_exp"
  shows "fl x = Num (of_int (rne (x * 2 ^ p)) / 2 ^ p)"
proof -
  obtain j where j: "ulp_exp = p + j" using p by (metis le_Suc_ex)
  define t where "t = x * 2 ^ ulp_exp"
  have t: "t = (x * 2 ^ p) * 2 ^ j" by (simp add: t_def j power_add)
  have a: "\<bar>t\<bar> = (\<bar>x\<bar> * 2 ^ p) * 2 ^ j" by (simp add: t abs_mult)
  have "2 ^ 52 * 2 ^ j \<le> \<bar>t\<bar>" unfolding a using lo by simp
  then have "of_int (2 ^ (52 + j)) \<le> \<bar>t\<bar>" by (simp add: power_add)
  then have n1: "2 ^ (52 + j) \<le> \<lfloor>\<bar>t\<bar>\<rfloor>" by (rule le_floor_iff [THEN iffD2])
  have "\<bar>t\<bar> < 2 ^ 53 * 2 ^ j" unfolding a using hi by simp
  then have "\<bar>t\<bar> < of_int (2 ^ Suc (52 + j))" by (simp add: power_add)
  then have n2: "\<lfloor>\<bar>t\<bar>\<rfloor> < 2 ^ Suc (52 + j)" by (rule floor_less_iff [THEN iffD2])
  have "bitlen \<lfloor>\<bar>t\<bar>\<rfloor> = int (Suc (52 + j))" using n1 n2 by (rule bitlen_eq)
  then have e: "nat (bitlen \<lfloor>\<bar>t\<bar>\<rfloor> - 53) = j" by simp
  have q: "t / of_int (2 ^ j) = x * 2 ^ p" by (simp add: t)
  have "\<bar>x * 2 ^ p\<bar> < 2 ^ 53" using hi by (simp add: abs_mult)
  then have lo': "of_int (- (2 ^ 53)) \<le> x * 2 ^ p" and hi': "x * 2 ^ p \<le> of_int (2 ^ 53)"
    by simp_all
  have "- (2 ^ 53) \<le> rne (x * 2 ^ p)" using lo' by (rule rne_ge)
  moreover have "rne (x * 2 ^ p) \<le> 2 ^ 53" using hi' by (rule rne_le)
  ultimately have "\<bar>rne (x * 2 ^ p)\<bar> \<le> 2 ^ 53" by linarith
  then have "\<bar>rne (x * 2 ^ p) * 2 ^ j\<bar> \<le> 2 ^ 53 * 2 ^ j"
    by (simp add: abs_mult)
  also have "\<dots> = (2::int) ^ (53 + j)" by (simp add: power_add)
  also have "\<dots> < 2 ^ huge_exp"
    using j by (intro power_strict_increasing) (simp_all add: ulp_exp_def huge_exp_def)
  finally have r: "\<not> 2 ^ huge_exp \<le> \<bar>rne (x * 2 ^ p) * 2 ^ j\<bar>" by simp
  have "of_int (rne (x * 2 ^ p) * 2 ^ j) / (2::real) ^ ulp_exp = of_int (rne (x * 2 ^ p)) / 2 ^ p"
    by (simp add: j power_add)
  then show ?thesis
    using r unfolding fl_def Let_def t_def [symmetric] e q by simp
qed

lemma fl_large:
  assumes lo: "2 ^ 52 \<le> \<bar>x / 2 ^ q\<bar>" and hi: "\<bar>x / 2 ^ q\<bar> < 2 ^ 53" and q: "q \<le> 900"
  shows "fl x = Num (of_int (rne (x / 2 ^ q) * 2 ^ q))"
proof -
  define j where "j = ulp_exp + q"
  define y where "y = x / 2 ^ q"
  have t: "x * 2 ^ ulp_exp = y * 2 ^ j" by (simp add: y_def j_def power_add)
  have g: "grid_round (x * 2 ^ ulp_exp) = rne y * 2 ^ j"
    unfolding t using lo hi unfolding y_def [symmetric] by (rule grid_round_scaled)
  have "\<bar>rne y * 2 ^ j\<bar> \<le> 2 ^ 53 * 2 ^ j"
    using rne_bound [of y] hi by (simp add: abs_mult y_def)
  also have "\<dots> = (2::int) ^ (53 + j)" by (simp add: power_add)
  also have "\<dots> < 2 ^ huge_exp"
    using q by (intro power_strict_increasing) (simp_all add: j_def ulp_exp_def huge_exp_def)
  finally have r: "\<not> 2 ^ huge_exp \<le> \<bar>rne y * 2 ^ j\<bar>" by simp
  have "of_int (rne y * 2 ^ j) / (2::real) ^ ulp_exp = of_int (rne y * 2 ^ q)"
    by (simp add: j_def power_add)
  then show ?thesis
    using r unfolding fl_grid_round g y_def by simp
qed

lemma fl_half: "fl (1 / 2) = Num (1 / 2)"
  using fl_normal [of "1 / 2" 53] by (simp add: ulp_exp_def)

lemmas fl_at =
  fl_normal [where p = 48] fl_normal [where p = 49] fl_normal [where p = 50]
  fl_normal [where p = 52] fl_normal [where p = 53] fl_large [where q = 1]

lemmas fl_at2 = fl_normal [where p = 46] fl_normal [where p = 51]

lemma fl_eleven_tenths: "fl (11 / 10) = Num (2476979795053773 / 2251799813685248)"
  by (simp add: fl_at ulp_exp_def rne_def)

lemma fl_numeral [simp]:
  "(numeral k :: int) < 2 ^ 53 \<Longrightarrow> fl (numeral k) = Num (numeral k)"
  "(numeral k :: int) < 2 ^ 53 \<Longrightarrow> fl (- numeral k) = Num (- numeral k)"
  using fl_int [of "numeral k"] fl_int [of "- numeral k"] by simp_all

section \<open>The rounded functions and the exact ones\<close>

lemma handleEvent_rd_exact:
  "handleEvent_rd (\<lambda>a. a) e c = fst (handleEvent nd e (c, g))"
  by (cases e)
     (simp_all add: handleMouseWheel_rd_def handleMouseWheel_def handleMouseDown_rd_def
        handleMouseDown_def handleMouseMove_rd_def handleMouseMove_def handleMouseUp_def
        handleMouseLeave_def Let_def)

lemma handleEvents_rd_exact:
  "handleEvents_rd (\<lambda>a. a) es c = fst (handleEvents nd es (c, g))"
  unfolding handleEvents_rd_def handleEvents_def
proof (induction es arbitrary: c g)
  case Nil
  show ?case by simp
next
  case (Cons e es)
  obtain c' g' where st: "handleEvent nd e (c, g) = (c', g')" by (cases "handleEvent nd e (c, g)")
  have "handleEvent_rd (\<lambda>a. a) e c = c'"
    using handleEvent_rd_exact [of e c nd g] st by simp
  then show ?case using Cons.IH [of c' g'] st by simp
qed

lemma vertical_rd_exact:
  "scaledHeight_rd (\<lambda>a. a) c = scaledHeight c"
  "bar_y_scaled_rd (\<lambda>a. a) c bar = bar_y_scaled c bar"
  "barHeight_rd (\<lambda>a. a) c bar = barHeight c bar"
  by (simp_all add: scaledHeight_rd_def scaledHeight_def bar_y_scaled_rd_def bar_y_scaled_def
        barHeight_rd_def barHeight_def)

lemma handleEvent_rd_frame:
  "data (handleEvent_rd rd e c) = data c \<and> canvas (handleEvent_rd rd e c) = canvas c \<and>
   minPrice (handleEvent_rd rd e c) = minPrice c \<and> maxPrice (handleEvent_rd rd e c) = maxPrice c"
  by (cases e)
     (simp_all add: handleMouseWheel_rd_def handleMouseDown_rd_def handleMouseMove_rd_def Let_def)

lemma handleEvents_rd_frame:
  "data (handleEvents_rd rd es c) = data c \<and> canvas (handleEvents_rd rd es c) = canvas c \<and>
   minPrice (handleEvents_rd rd es c) = minPrice c \<and> maxPrice (handleEvents_rd rd es c) = maxPrice c"
  unfolding handleEvents_rd_def
proof (induction es arbitrary: c)
  case Nil
  show ?case by simp
next
  case (Cons e es)
  show ?case using Cons.IH [of "handleEvent_rd rd e c"] handleEvent_rd_frame [of rd e c] by simp
qed

lemma Math_max_one: "a \<noteq> NaN \<Longrightarrow> Num 1 \<le> Math_max [Num 1, a]"
  by (cases a) (simp_all add: Math_max_def max2_def)

lemma handleEvent_rd_scale:
  assumes "Num 1 \<le> scale c"
  shows "Num 1 \<le> scale (handleEvent_rd round64 e c)"
proof (cases e)
  case (Wheel ev rect)
  obtain z where z: "(if 0 < Math_sign (deltaY ev) then round64 (Num (11 / 10)) else round64 (Num (9 / 10))) = z"
    by simp
  have zp: "Num (1 / 2) \<le> z"
    using z fl_mono [of "1 / 2" "11 / 10"] fl_mono [of "1 / 2" "9 / 10"]
    by (auto simp: fl_half split: if_splits)
  have "scale c * z \<noteq> NaN"
    using assms zp by (cases "scale c"; cases z) (auto split: if_splits)
  then have "round64 (scale c * z) \<noteq> NaN" by (rule round64_not_NaN)
  then have "Num 1 \<le> Math_max [Num 1, round64 (scale c * z)]" by (rule Math_max_one)
  then show ?thesis using Wheel z by (simp add: handleMouseWheel_rd_def Let_def)
next
  case (MouseDown ev)
  then show ?thesis using assms by (simp add: handleMouseDown_rd_def)
next
  case (MouseMove ev)
  then show ?thesis using assms by (simp add: handleMouseMove_rd_def Let_def)
qed (use assms in simp_all)

lemma handleEvents_rd_scale:
  "Num 1 \<le> scale c \<Longrightarrow> Num 1 \<le> scale (handleEvents_rd round64 es c)"
  unfolding handleEvents_rd_def
  by (induction es arbitrary: c) (simp_all add: handleEvent_rd_scale)

section \<open>The vertical mapping in binary64\<close>

lemma Min_in_image:
  assumes "bars \<noteq> []"
  shows "\<exists>b \<in> set bars. Min (f ` set bars) = f b" "\<exists>b \<in> set bars. Max (f ` set bars) = f b"
proof -
  have "Min (f ` set bars) \<in> f ` set bars" using assms by (intro Min_in) simp_all
  then show "\<exists>b \<in> set bars. Min (f ` set bars) = f b" by auto
  have "Max (f ` set bars) \<in> f ` set bars" using assms by (intro Max_in) simp_all
  then show "\<exists>b \<in> set bars. Max (f ` set bars) = f b" by auto
qed

text \<open>
  C4, as amended. Take a non-empty sequence of bars whose prices are doubles, and a
  state \<open>c\<close> reached from the construction by any events, all arithmetic in binary64.
  If \<open>maxPrice > minPrice\<close>, and neither \<open>height * scale\<close> nor \<open>maxPrice - minPrice\<close>
  overflows, then every bar of the sequence with \<open>Low \<le> Close \<le> High\<close> has its vertical
  position before the offset and centring term, and its body height, within
  \<open>[0, height * scale]\<close>. Without the hypothesis on the bar the bounds fail (the
  concrete run of malformed bars below): the code does not check bars.
\<close>

theorem vertical_range:
  assumes ne: "bars \<noteq> []"
    and dbl: "\<forall>b \<in> set bars. is_double (Low b) \<and> is_double (High b) \<and> is_double (Close b)"
    and c: "c = handleEvents_rd round64 es (Chart_new bars cv)"
    and lt: "minPrice c < maxPrice c"
    and fin: "isFinite (scaledHeight_rd round64 c)" "isFinite (round64 (maxPrice c - minPrice c))"
    and bar: "bar \<in> set (data c)" "Low bar \<le> Close bar" "Close bar \<le> High bar"
  shows "Num 0 \<le> bar_y_scaled_rd round64 c bar \<and>
         bar_y_scaled_rd round64 c bar \<le> scaledHeight_rd round64 c \<and>
         Num 0 \<le> barHeight_rd round64 c bar \<and>
         barHeight_rd round64 c bar \<le> scaledHeight_rd round64 c"
proof -
  let ?mn = "Min (Low ` set bars)" and ?mx = "Max (High ` set bars)"
  have fr: "data c = bars" "canvas c = cv" "minPrice c = Num ?mn" "maxPrice c = Num ?mx"
    using handleEvents_rd_frame [of round64 es "Chart_new bars cv"] ne
    by (simp_all add: c Chart_new_fields Chart_new_minPrice Chart_new_maxPrice)
  have sc: "Num 1 \<le> scale c"
    unfolding c by (rule handleEvents_rd_scale) (simp add: Chart_new_scale)
  have b: "bar \<in> set bars" using bar(1) fr by simp
  have lo: "?mn \<le> Low bar" using b by (intro Min_le) simp_all
  have hi: "High bar \<le> ?mx" using b by (intro Max_ge) simp_all
  have mnmx: "?mn < ?mx" using lt by (simp add: fr)
  have dmn: "is_double ?mn" and dmx: "is_double ?mx"
    using Min_in_image(1) [OF ne, of Low] Min_in_image(2) [OF ne, of High] dbl by auto
  \<comment> \<open>the scaled height is a non-negative double\<close>
  obtain s where s: "scale c = Num s" "1 \<le> s"
    using sc fin(1)
    by (cases "scale c") (auto simp: scaledHeight_rd_def canvasHeight_def split: if_splits)
  obtain S where S: "scaledHeight_rd round64 c = Num S"
    using fin(1) by (cases "scaledHeight_rd round64 c") simp_all
  have flS: "fl (real (height cv) * s) = Num S"
    using S by (simp add: scaledHeight_rd_def canvasHeight_def fr s)
  have S0: "0 \<le> S"
    using fl_mono [of 0 "real (height cv) * s"] s flS by simp
  have Sd: "fl S = Num S" using flS by (rule fl_idem)
  \<comment> \<open>the price range is a positive double\<close>
  obtain R where R: "fl (?mx - ?mn) = Num R"
    using fin(2) by (cases "fl (?mx - ?mn)") (simp_all add: fr)
  have R0: "0 < R" using dmn dmx mnmx R by (rule double_diff_pos)
  \<comment> \<open>position\<close>
  obtain a where a: "fl (Close bar - ?mn) = Num a" "0 \<le> a" "a \<le> R"
    using fl_bounded [of 0 "Close bar - ?mn" "?mx - ?mn" 0 R] lo hi bar(2,3) R by auto
  obtain q where q: "fl (a / R) = Num q" "0 \<le> q" "q \<le> 1"
    using fl_unit [of "a / R"] a R0 by auto
  obtain p where p: "fl (q * S) = Num p" "0 \<le> p" "p \<le> S"
    using fl_bounded [of 0 "q * S" S 0 S] q S0 Sd mult_right_mono [of q 1 S] by auto
  obtain y where y: "fl (S - p) = Num y" "0 \<le> y" "y \<le> S"
    using fl_bounded [of 0 "S - p" S 0 S] p Sd by auto
  have yb: "bar_y_scaled_rd round64 c bar = Num y"
    using R0 by (simp add: bar_y_scaled_rd_def S fr a R q p y)
  \<comment> \<open>height\<close>
  obtain a' where a': "fl (High bar - Low bar) = Num a'" "0 \<le> a'" "a' \<le> R"
    using fl_bounded [of 0 "High bar - Low bar" "?mx - ?mn" 0 R] lo hi bar(2,3) R by auto
  obtain q' where q': "fl (a' / R) = Num q'" "0 \<le> q'" "q' \<le> 1"
    using fl_unit [of "a' / R"] a' R0 by auto
  obtain p' where p': "fl (q' * S) = Num p'" "0 \<le> p'" "p' \<le> S"
    using fl_bounded [of 0 "q' * S" S 0 S] q' S0 Sd mult_right_mono [of q' 1 S] by auto
  have bh: "barHeight_rd round64 c bar = Num p'"
    using R0 by (simp add: barHeight_rd_def S fr a' R q' p')
  show ?thesis using y p' by (simp add: yb bh S)
qed

lemma zoomed_chart_fields:
  "data zoomed_chart = example_bars" "canvas zoomed_chart = example_canvas"
  "minPrice zoomed_chart = Num 8" "maxPrice zoomed_chart = Num 12"
  "scale zoomed_chart = Num (2476979795053773 / 2251799813685248)"
proof -
  have f: "data zoomed_chart = data chart0" "canvas zoomed_chart = canvas chart0"
    "minPrice zoomed_chart = minPrice chart0" "maxPrice zoomed_chart = maxPrice chart0"
    using handleEvents_rd_frame [of round64 "[Wheel wheel_out rect0]" chart0]
    by (simp_all add: zoomed_chart_def chart0_def)
  show "data zoomed_chart = example_bars" "canvas zoomed_chart = example_canvas"
    "minPrice zoomed_chart = Num 8" "maxPrice zoomed_chart = Num 12"
    by (simp_all add: f chart0_fields)
  show "scale zoomed_chart = Num (2476979795053773 / 2251799813685248)"
    unfolding zoomed_chart_def chart0_def [symmetric]
    by (simp add: handleEvents_rd_def handleMouseWheel_rd_def Let_def wheel_out_def
          Math_sign_def chart0_fields Math_max_floor fl_at ulp_exp_def rne_def)
qed

theorem vertical_range_witness:
  "example_bars \<noteq> [] \<and>
   is_double 8 \<and> is_double 9 \<and> is_double (19 / 2) \<and> is_double 10 \<and> is_double 11 \<and> is_double 12 \<and>
   minPrice zoomed_chart < maxPrice zoomed_chart \<and>
   isFinite (scaledHeight_rd round64 zoomed_chart) \<and>
   isFinite (round64 (maxPrice zoomed_chart - minPrice zoomed_chart)) \<and>
   example_bars ! 0 \<in> set (data zoomed_chart) \<and>
   Low (example_bars ! 0) \<le> Close (example_bars ! 0) \<and>
   Close (example_bars ! 0) \<le> High (example_bars ! 0) \<and>
   Num 0 \<le> bar_y_scaled_rd round64 zoomed_chart (example_bars ! 0) \<and>
   bar_y_scaled_rd round64 zoomed_chart (example_bars ! 0) \<le> scaledHeight_rd round64 zoomed_chart \<and>
   Num 0 \<le> barHeight_rd round64 zoomed_chart (example_bars ! 0) \<and>
   barHeight_rd round64 zoomed_chart (example_bars ! 0) \<le> scaledHeight_rd round64 zoomed_chart"
proof -
  have ne: "example_bars \<noteq> []" by (simp add: example_bars_def)
  have d: "is_double 8" "is_double 9" "is_double (19 / 2)" "is_double 10" "is_double 11"
    "is_double 12"
    by (simp_all add: is_double_def fl_at ulp_exp_def rne_def)
  have dbl: "\<forall>b \<in> set example_bars. is_double (Low b) \<and> is_double (High b) \<and> is_double (Close b)"
    using d by (simp add: example_bars_def)
  have c: "zoomed_chart = handleEvents_rd round64 [Wheel wheel_out rect0]
             (Chart_new example_bars example_canvas)"
    by (rule zoomed_chart_def)
  have lt: "minPrice zoomed_chart < maxPrice zoomed_chart"
    by (simp add: zoomed_chart_fields)
  have f1: "isFinite (scaledHeight_rd round64 zoomed_chart)"
    by (simp add: scaledHeight_rd_def canvasHeight_def zoomed_chart_fields example_canvas_size
          fl_at2 ulp_exp_def rne_def)
  have f2: "isFinite (round64 (maxPrice zoomed_chart - minPrice zoomed_chart))"
    by (simp add: zoomed_chart_fields)
  have m: "example_bars ! 0 \<in> set (data zoomed_chart)"
    by (simp add: zoomed_chart_fields example_bars_def)
  have w: "Low (example_bars ! 0) \<le> Close (example_bars ! 0)"
    "Close (example_bars ! 0) \<le> High (example_bars ! 0)"
    by (simp_all add: example_bars_def)
  show ?thesis
    using vertical_range [OF ne dbl c lt f1 f2 m w] ne d lt f1 f2 m w by simp
qed

text \<open>A bar closing above its high, on the 300 by 100 surface at scale 1: the position
  before the offset is \<open>100 - (20 - 8) / 4 * 100 = -200\<close>; every operation is exact.\<close>

theorem vertical_range_counterexample:
  "malformed_bars \<noteq> [] \<and>
   minPrice (Chart_new malformed_bars example_canvas) < maxPrice (Chart_new malformed_bars example_canvas) \<and>
   malformed_bars ! 0 \<in> set (data (Chart_new malformed_bars example_canvas)) \<and>
   bar_y_scaled (Chart_new malformed_bars example_canvas) (malformed_bars ! 0) = Num (- 200) \<and>
   \<not> Num 0 \<le> bar_y_scaled (Chart_new malformed_bars example_canvas) (malformed_bars ! 0) \<and>
   bar_y_scaled_rd round64 (Chart_new malformed_bars example_canvas) (malformed_bars ! 0) = Num (- 200) \<and>
   \<not> Num 0 \<le> bar_y_scaled_rd round64 (Chart_new malformed_bars example_canvas) (malformed_bars ! 0)"
proof -
  let ?c = "Chart_new malformed_bars example_canvas"
  have ne: "malformed_bars \<noteq> []" by (simp add: malformed_bars_def)
  have mn: "minPrice ?c = Num 8"
    using Chart_new_minPrice [OF ne, of example_canvas] by (simp add: malformed_bars_def)
  have mx: "maxPrice ?c = Num 12"
    using Chart_new_maxPrice [OF ne, of example_canvas] by (simp add: malformed_bars_def)
  have cl: "Close (malformed_bars ! 0) = 20" by (simp add: malformed_bars_def)
  have y: "bar_y_scaled ?c (malformed_bars ! 0) = Num (- 200)"
    by (simp add: bar_y_scaled_def scaledHeight_def canvasHeight_def mn mx cl Chart_new_fields
          example_canvas_size)
  have y64: "bar_y_scaled_rd round64 ?c (malformed_bars ! 0) = Num (- 200)"
    by (simp add: bar_y_scaled_rd_def scaledHeight_rd_def canvasHeight_def mn mx cl
          Chart_new_fields example_canvas_size)
  have m: "malformed_bars ! 0 \<in> set (data ?c)"
    by (simp add: Chart_new_fields malformed_bars_def)
  show ?thesis using ne m by (simp add: y y64 mn mx)
qed

section \<open>Pan: dragging in binary64\<close>

lemma pixel_Ints: "pixel x \<Longrightarrow> x \<in> \<int> \<and> \<bar>x\<bar> \<le> 2 ^ 51"
  by (metis pixel_def Ints_of_int)

lemma move_rd_dragging:
  assumes "isDragging c"
  shows "handleMouseMove_rd rd e c =
     c\<lparr>offsetX := rd (offsetX c + rd (Num (clientX e) - dragStartX c)),
       offsetY := rd (offsetY c + rd (Num (clientY e) - dragStartY c)),
       dragStartX := Num (clientX e), dragStartY := Num (clientY e)\<rparr>"
  using assms by (simp add: handleMouseMove_rd_def Let_def)

lemma drag_moves_x:
  assumes "isDragging c" "offsetX c = Num off" "dragStartX c = Num a" "off \<in> \<int>" "a \<in> \<int>"
    "\<bar>a\<bar> \<le> 2 ^ 51" "\<bar>off - a\<bar> \<le> 2 ^ 52"
    "\<forall>m \<in> set ms. clientX m \<in> \<int> \<and> \<bar>clientX m\<bar> \<le> 2 ^ 51"
  shows "offsetX (fold (handleEvent_rd round64) (map MouseMove ms) c) =
           Num (off + (last (a # map clientX ms) - a))"
  using assms
proof (induction ms arbitrary: c off a)
  case Nil
  then show ?case by simp
next
  case (Cons m ms)
  let ?k = "clientX m"
  let ?c' = "handleMouseMove_rd round64 m c"
  have k: "?k \<in> \<int>" "\<bar>?k\<bar> \<le> 2 ^ 51" using Cons.prems(8) by simp_all
  have d: "fl (?k - a) = Num (?k - a)"
    using k Cons.prems(5,6) by (intro fl_Ints) (auto intro: Ints_diff)
  have s: "fl (off + (?k - a)) = Num (off + (?k - a))"
    using k Cons.prems(4,5,7) by (intro fl_Ints) (auto intro: Ints_diff Ints_add)
  have c': "isDragging ?c'" "offsetX ?c' = Num (off + (?k - a))" "dragStartX ?c' = Num ?k"
    using Cons.prems(1,2,3) by (simp_all add: move_rd_dragging d s)
  have inv: "off + (?k - a) \<in> \<int>" "\<bar>off + (?k - a) - ?k\<bar> \<le> 2 ^ 52"
    using k Cons.prems(4,5,7) by (auto intro: Ints_diff Ints_add)
  have rest: "\<forall>m \<in> set ms. clientX m \<in> \<int> \<and> \<bar>clientX m\<bar> \<le> 2 ^ 51"
    using Cons.prems(8) by simp
  show ?case
    using Cons.IH [OF c' inv(1) k(1) k(2) inv(2) rest] by simp
qed

lemma drag_moves_y:
  assumes "isDragging c" "offsetY c = Num off" "dragStartY c = Num a" "off \<in> \<int>" "a \<in> \<int>"
    "\<bar>a\<bar> \<le> 2 ^ 51" "\<bar>off - a\<bar> \<le> 2 ^ 52"
    "\<forall>m \<in> set ms. clientY m \<in> \<int> \<and> \<bar>clientY m\<bar> \<le> 2 ^ 51"
  shows "offsetY (fold (handleEvent_rd round64) (map MouseMove ms) c) =
           Num (off + (last (a # map clientY ms) - a))"
  using assms
proof (induction ms arbitrary: c off a)
  case Nil
  then show ?case by simp
next
  case (Cons m ms)
  let ?k = "clientY m"
  let ?c' = "handleMouseMove_rd round64 m c"
  have k: "?k \<in> \<int>" "\<bar>?k\<bar> \<le> 2 ^ 51" using Cons.prems(8) by simp_all
  have d: "fl (?k - a) = Num (?k - a)"
    using k Cons.prems(5,6) by (intro fl_Ints) (auto intro: Ints_diff)
  have s: "fl (off + (?k - a)) = Num (off + (?k - a))"
    using k Cons.prems(4,5,7) by (intro fl_Ints) (auto intro: Ints_diff Ints_add)
  have c': "isDragging ?c'" "offsetY ?c' = Num (off + (?k - a))" "dragStartY ?c' = Num ?k"
    using Cons.prems(1,2,3) by (simp_all add: move_rd_dragging d s)
  have inv: "off + (?k - a) \<in> \<int>" "\<bar>off + (?k - a) - ?k\<bar> \<le> 2 ^ 52"
    using k Cons.prems(4,5,7) by (auto intro: Ints_diff Ints_add)
  have rest: "\<forall>m \<in> set ms. clientY m \<in> \<int> \<and> \<bar>clientY m\<bar> \<le> 2 ^ 51"
    using Cons.prems(8) by simp
  show ?case
    using Cons.IH [OF c' inv(1) k(1) k(2) inv(2) rest] by simp
qed

text \<open>
  C5, as amended. A pointer-move while dragging adds the delta from the current anchor
  to the offsets, not scaled by the zoom, in two binary64 operations for each axis
  (\<open>delta = pos - anchor\<close>, \<open>offset = offset + delta\<close>, each rounded), and makes the
  pointer position the new anchor; a move outside a drag changes neither the chart nor
  the surface. After pointer-down at \<open>a\<close> and any moves \<open>ms\<close> the offsets have changed
  by exactly the move from \<open>a\<close> to the last position, provided the offset at
  pointer-down and all pointer coordinates are whole numbers of magnitude at most
  \<open>2 ^ 51\<close>: then no operation rounds. Otherwise the sum of the moves may differ from
  it by rounding (the concrete runs below).
\<close>

theorem pan_is_additive:
  "(isDragging c \<longrightarrow>
      offsetX (handleMouseMove_rd round64 e c) =
        round64 (offsetX c + round64 (Num (clientX e) - dragStartX c)) \<and>
      offsetY (handleMouseMove_rd round64 e c) =
        round64 (offsetY c + round64 (Num (clientY e) - dragStartY c)) \<and>
      dragStartX (handleMouseMove_rd round64 e c) = Num (clientX e) \<and>
      dragStartY (handleMouseMove_rd round64 e c) = Num (clientY e)) \<and>
   (\<not> isDragging c \<longrightarrow>
      handleMouseMove_rd round64 e c = c \<and> handleMouseMove nd e (c, g) = (c, g)) \<and>
   (offsetX c = Num ox \<and> pixel ox \<and> pixel (clientX a) \<and> (\<forall>m \<in> set ms. pixel (clientX m)) \<longrightarrow>
      offsetX (handleEvents_rd round64 (map MouseMove ms) (handleMouseDown_rd a c)) =
        Num (ox + (clientX (last (a # ms)) - clientX a))) \<and>
   (offsetY c = Num oy \<and> pixel oy \<and> pixel (clientY a) \<and> (\<forall>m \<in> set ms. pixel (clientY m)) \<longrightarrow>
      offsetY (handleEvents_rd round64 (map MouseMove ms) (handleMouseDown_rd a c)) =
        Num (oy + (clientY (last (a # ms)) - clientY a)))"
proof -
  let ?c = "handleMouseDown_rd a c"
  have d: "isDragging ?c" "dragStartX ?c = Num (clientX a)" "dragStartY ?c = Num (clientY a)"
    "offsetX ?c = offsetX c" "offsetY ?c = offsetY c"
    by (simp_all add: handleMouseDown_rd_def)
  have l: "last (clientX a # map clientX ms) = clientX (last (a # ms))"
    "last (clientY a # map clientY ms) = clientY (last (a # ms))"
    by (simp_all add: last_map)
  have one: "isDragging c \<longrightarrow>
      offsetX (handleMouseMove_rd round64 e c) =
        round64 (offsetX c + round64 (Num (clientX e) - dragStartX c)) \<and>
      offsetY (handleMouseMove_rd round64 e c) =
        round64 (offsetY c + round64 (Num (clientY e) - dragStartY c)) \<and>
      dragStartX (handleMouseMove_rd round64 e c) = Num (clientX e) \<and>
      dragStartY (handleMouseMove_rd round64 e c) = Num (clientY e)"
    by (simp add: move_rd_dragging)
  have idle: "\<not> isDragging c \<longrightarrow>
      handleMouseMove_rd round64 e c = c \<and> handleMouseMove nd e (c, g) = (c, g)"
    by (simp add: handleMouseMove_rd_def handleMouseMove_def)
  have x: "offsetX (handleEvents_rd round64 (map MouseMove ms) ?c) =
        Num (ox + (clientX (last (a # ms)) - clientX a))"
    if h: "offsetX c = Num ox" "pixel ox" "pixel (clientX a)" "\<forall>m \<in> set ms. pixel (clientX m)"
  proof -
    have i: "ox \<in> \<int>" "\<bar>ox\<bar> \<le> 2 ^ 51" "clientX a \<in> \<int>" "\<bar>clientX a\<bar> \<le> 2 ^ 51"
      using pixel_Ints [OF h(2)] pixel_Ints [OF h(3)] by simp_all
    have b: "\<bar>ox - clientX a\<bar> \<le> 2 ^ 52" using i(2,4) by simp
    have ms: "\<forall>m \<in> set ms. clientX m \<in> \<int> \<and> \<bar>clientX m\<bar> \<le> 2 ^ 51"
      using h(4) pixel_Ints by blast
    have oc: "offsetX ?c = Num ox" using h(1) d(4) by simp
    show ?thesis
      using drag_moves_x [OF d(1) oc d(2) i(1) i(3) i(4) b ms]
      unfolding handleEvents_rd_def l .
  qed
  have y: "offsetY (handleEvents_rd round64 (map MouseMove ms) ?c) =
        Num (oy + (clientY (last (a # ms)) - clientY a))"
    if h: "offsetY c = Num oy" "pixel oy" "pixel (clientY a)" "\<forall>m \<in> set ms. pixel (clientY m)"
  proof -
    have i: "oy \<in> \<int>" "\<bar>oy\<bar> \<le> 2 ^ 51" "clientY a \<in> \<int>" "\<bar>clientY a\<bar> \<le> 2 ^ 51"
      using pixel_Ints [OF h(2)] pixel_Ints [OF h(3)] by simp_all
    have b: "\<bar>oy - clientY a\<bar> \<le> 2 ^ 52" using i(2,4) by simp
    have ms: "\<forall>m \<in> set ms. clientY m \<in> \<int> \<and> \<bar>clientY m\<bar> \<le> 2 ^ 51"
      using h(4) pixel_Ints by blast
    have oc: "offsetY ?c = Num oy" using h(1) d(5) by simp
    show ?thesis
      using drag_moves_y [OF d(1) oc d(3) i(1) i(3) i(4) b ms]
      unfolding handleEvents_rd_def l .
  qed
  show ?thesis using one idle x y by blast
qed

theorem pan_is_additive_witness:
  "isDragging chart_dragging \<and>
   offsetX (handleMouseMove_rd round64 (pt 15 9) chart_dragging) = Num 5 \<and>
   offsetY (handleMouseMove_rd round64 (pt 15 9) chart_dragging) = Num (- 11) \<and>
   dragStartX (handleMouseMove_rd round64 (pt 15 9) chart_dragging) = Num 15 \<and>
   dragStartY (handleMouseMove_rd round64 (pt 15 9) chart_dragging) = Num 9 \<and>
   \<not> isDragging chart0 \<and>
   handleMouseMove_rd round64 (pt 15 9) chart0 = chart0 \<and>
   handleMouseMove (Date_fixed 0) (pt 15 9) (chart0, Ctx_new) = (chart0, Ctx_new) \<and>
   offsetX chart0 = Num 0 \<and> offsetY chart0 = Num 0 \<and>
   pixel 0 \<and> pixel 10 \<and> pixel 20 \<and> pixel 15 \<and> pixel 9 \<and> pixel 40 \<and> pixel 2 \<and> pixel 33 \<and> pixel 27 \<and>
   offsetX (handleEvents_rd round64 (map MouseMove [pt 15 9, pt 40 2, pt 33 27])
              (handleMouseDown_rd (pt 10 20) chart0)) = Num 23 \<and>
   offsetY (handleEvents_rd round64 (map MouseMove [pt 15 9, pt 40 2, pt 33 27])
              (handleMouseDown_rd (pt 10 20) chart0)) = Num 7"
proof -
  have c0: "offsetX chart0 = Num 0" "offsetY chart0 = Num 0" "\<not> isDragging chart0"
    by (simp_all add: chart0_def Chart_new_fields)
  have c1: "isDragging chart_dragging" "offsetX chart_dragging = Num 0"
    "offsetY chart_dragging = Num 0" "dragStartX chart_dragging = Num 10"
    "dragStartY chart_dragging = Num 20"
    by (simp_all add: chart_dragging_def c0)
  have p: "clientX (pt x y) = x" "clientY (pt x y) = y" for x y
    by (simp_all add: pt_def)
  have px: "pixel 0" "pixel 10" "pixel 20" "pixel 15" "pixel 9" "pixel 40" "pixel 2" "pixel 33"
    "pixel 27"
    by (simp_all add: pixel_def)
  have A: "offsetX (handleMouseMove_rd round64 (pt 15 9) chart_dragging) = Num 5"
    "offsetY (handleMouseMove_rd round64 (pt 15 9) chart_dragging) = Num (- 11)"
    "dragStartX (handleMouseMove_rd round64 (pt 15 9) chart_dragging) = Num 15"
    "dragStartY (handleMouseMove_rd round64 (pt 15 9) chart_dragging) = Num 9"
    using pan_is_additive [of chart_dragging "pt 15 9" "Date_fixed 0" Ctx_new 0 "pt 10 20" "[]" 0]
    by (simp_all add: c1 p)
  have B: "handleMouseMove_rd round64 (pt 15 9) chart0 = chart0"
    "handleMouseMove (Date_fixed 0) (pt 15 9) (chart0, Ctx_new) = (chart0, Ctx_new)"
    "offsetX (handleEvents_rd round64 (map MouseMove [pt 15 9, pt 40 2, pt 33 27])
              (handleMouseDown_rd (pt 10 20) chart0)) = Num 23"
    "offsetY (handleEvents_rd round64 (map MouseMove [pt 15 9, pt 40 2, pt 33 27])
              (handleMouseDown_rd (pt 10 20) chart0)) = Num 7"
    using pan_is_additive [of chart0 "pt 15 9" "Date_fixed 0" Ctx_new 0 "pt 10 20"
            "[pt 15 9, pt 40 2, pt 33 27]" 0]
    by (simp_all add: c0 p px)
  show ?thesis using A B c0 c1(1) px by simp
qed

lemma zoomed7_offsetX: "offsetX zoomed7 = Num (- 788129934789838 / 2 ^ 50)"
  unfolding zoomed7_def
  by (simp add: handleEvents_rd_def handleMouseWheel_rd_def Let_def wheel_at_7_def rect0_def
        Math_sign_def chart0_fields Math_max_floor fl_at ulp_exp_def rne_def)

lemma dragged30_offsetX: "offsetX dragged30 = Num (8247216817622220 / 2 ^ 48)"
  unfolding dragged30_def
  by (simp add: handleEvents_rd_def handleMouseDown_rd_def handleMouseMove_rd_def Let_def pt_def
        zoomed7_offsetX fl_at ulp_exp_def rne_def)

lemma far_chart_offsetX: "offsetX far_chart = Num (2 ^ 53)"
  unfolding far_chart_def
  by (simp add: handleEvents_rd_def handleMouseDown_rd_def handleMouseMove_rd_def Let_def pt_def
        chart0_fields fl_at ulp_exp_def rne_def)

lemma far_dragged_offsetX: "offsetX far_dragged = Num (2 ^ 53)"
  unfolding far_dragged_def
  by (simp add: handleEvents_rd_def handleMouseDown_rd_def handleMouseMove_rd_def Let_def pt_def
        far_chart_offsetX fl_at ulp_exp_def rne_def)

text \<open>
  After one wheel event at \<open>x = 7\<close> the offset is \<open>7 - 7 * 1.1\<close> as rounded, and a drag
  from 0 over 10 and 20 to 30 changes it by \<open>30 - 2 ^ -49\<close>; at an offset of \<open>2 ^ 53\<close> a
  drag from 0 over 1 to 2 changes nothing.
\<close>

theorem pan_is_additive_counterexample:
  "offsetX zoomed7 = Num (- 788129934789838 / 2 ^ 50) \<and>
   offsetX dragged30 = Num (8247216817622220 / 2 ^ 48) \<and>
   offsetX dragged30 \<noteq> offsetX zoomed7 + Num (30 - 0) \<and>
   offsetX far_chart = Num (2 ^ 53) \<and>
   offsetX far_dragged = Num (2 ^ 53) \<and>
   offsetX far_dragged \<noteq> offsetX far_chart + Num (2 - 0)"
  by (simp add: zoomed7_offsetX dragged30_offsetX far_chart_offsetX far_dragged_offsetX)

end
